theory Spec2Isabelle
  imports Main "HOL-Library.AList"
begin

section \<open>Python values and library operations used by the four stages\<close>

text \<open>
  The stages exchange JSON documents. A value that \<^verbatim>\<open>json.loads\<close> returns is modelled by
  \<open>json\<close>: \<open>JNull\<close> is Python's \<^verbatim>\<open>None\<close>, \<open>JArr\<close> a list, \<open>JObj\<close> a dict as the list of
  its items in insertion order (keys are distinct in a dict). Numbers are Python's
  unbounded integers; a character is a code point below 256.
\<close>

datatype json =
    JNull
  | JBool bool
  | JInt int
  | JStr string
  | JArr "json list"
  | JObj "(string \<times> json) list"

text \<open>The exceptions the modelled code can raise; \<open>Failure\<close> is a bare \<^verbatim>\<open>Exception(...)\<close>.\<close>

datatype exn =
    KeyError
  | TypeError
  | AttributeError
  | ValueError
  | JSONDecodeError
  | APIError
  | IndexError
  | FileNotFoundError
  | FileExistsError
  | NotADirectoryError
  | Failure

text \<open>\<^verbatim>\<open>str.isspace\<close> on the code points below 256, and \<^verbatim>\<open>str.strip()\<close>.\<close>

definition isspace :: "char \<Rightarrow> bool" where
  "isspace c = (c \<in> set [CHR 0x09, CHR 0x0A, CHR 0x0B, CHR 0x0C, CHR 0x0D,
       CHR 0x1C, CHR 0x1D, CHR 0x1E, CHR 0x1F, CHR 0x20, CHR 0x85, CHR 0xA0])"

definition strip :: "string \<Rightarrow> string" where
  "strip s = rev (dropWhile isspace (rev (dropWhile isspace s)))"

definition startswith :: "string \<Rightarrow> string \<Rightarrow> bool" where
  "startswith s p = (take (length p) s = p)"

definition endswith :: "string \<Rightarrow> string \<Rightarrow> bool" where
  "endswith s p = (length p \<le> length s \<and> drop (length s - length p) s = p)"

text \<open>The fence markers: three backquotes, and three backquotes followed by \<open>json\<close>.\<close>

definition fence :: string where
  "fence = [CHR 0x60, CHR 0x60, CHR 0x60]"

definition fence_json :: string where
  "fence_json = fence @ ''json''"

text \<open>
  \<^verbatim>\<open>d[key]\<close> for a string key: a dict gives the value or raises KeyError; a list or a
  string raises TypeError (their indices are integers), as do the other values.
\<close>

fun getitem :: "json \<Rightarrow> string \<Rightarrow> exn + json" where
  "getitem (JObj kvs) k = (case map_of kvs k of None \<Rightarrow> Inl KeyError | Some v \<Rightarrow> Inr v)"
| "getitem _ k = Inl TypeError"

text \<open>\<^verbatim>\<open>d.get(key)\<close>: only a dict has the method; a missing key gives \<^verbatim>\<open>None\<close>.\<close>

fun get :: "json \<Rightarrow> string \<Rightarrow> exn + json" where
  "get (JObj kvs) k = (case map_of kvs k of None \<Rightarrow> Inr JNull | Some v \<Rightarrow> Inr v)"
| "get _ k = Inl AttributeError"

text \<open>\<^verbatim>\<open>len(x)\<close>: defined for strings, lists and dicts.\<close>

fun py_len :: "json \<Rightarrow> exn + nat" where
  "py_len (JStr s) = Inr (length s)"
| "py_len (JArr xs) = Inr (length xs)"
| "py_len (JObj kvs) = Inr (length kvs)"
| "py_len _ = Inl TypeError"

text \<open>Truth value of a Python object.\<close>

fun truthy :: "json \<Rightarrow> bool" where
  "truthy JNull = False"
| "truthy (JBool b) = b"
| "truthy (JInt i) = (i \<noteq> 0)"
| "truthy (JStr s) = (s \<noteq> [])"
| "truthy (JArr xs) = (xs \<noteq> [])"
| "truthy (JObj kvs) = (kvs \<noteq> [])"

section \<open>A reader for JSON text\<close>

text \<open>
  The stages call \<^verbatim>\<open>json.loads\<close> of Python's library; the definitions below take it as
  the parameter \<open>loads\<close>. Where a statement is evaluated on a concrete text, \<open>json_loads\<close>
  stands for it: a reader of the JSON texts built from \<^verbatim>\<open>null\<close>, \<^verbatim>\<open>true\<close>, \<^verbatim>\<open>false\<close>,
  integers, strings without escape sequences, arrays and objects, with the library's
  treatment of white space, of trailing text and of a repeated key (the last value,
  at the first position). Texts with fractions, exponents or escape sequences are
  outside it: \<open>json_loads\<close> gives \<open>None\<close> for them, and it is never evaluated on one below.
\<close>

definition json_ws :: "char \<Rightarrow> bool" where
  "json_ws c = (c \<in> set [CHR 0x20, CHR 0x09, CHR 0x0A, CHR 0x0D])"

definition skip_ws :: "string \<Rightarrow> string" where
  "skip_ws s = dropWhile json_ws s"

definition is_digit :: "char \<Rightarrow> bool" where
  "is_digit c = (c \<in> set ''0123456789'')"

definition digit_val :: "char \<Rightarrow> int" where
  "digit_val c = int (of_char c) - 48"

definition plain_char :: "char \<Rightarrow> bool" where
  "plain_char c = (c \<noteq> CHR 0x22 \<and> c \<noteq> CHR 0x5C \<and> (of_char c :: nat) \<ge> 32)"

definition scan_string :: "string \<Rightarrow> (string \<times> string) option" where
  "scan_string s =
     (case dropWhile plain_char s of
        [] \<Rightarrow> None
      | c # rest \<Rightarrow> if c = CHR 0x22 then Some (takeWhile plain_char s, rest) else None)"

definition scan_nat :: "string \<Rightarrow> (int \<times> string) option" where
  "scan_nat s =
     (case s of
        [] \<Rightarrow> None
      | c # rest \<Rightarrow>
          if c = CHR ''0'' then Some (0, rest)
          else if is_digit c
          then Some (foldl (\<lambda>a d. 10 * a + digit_val d) 0 (takeWhile is_digit s),
                     dropWhile is_digit s)
          else None)"

text \<open>
  One function reads a value, the rest of an array or the rest of an object, as \<open>mode\<close>
  says; \<open>fuel\<close> bounds the number of nested calls (the text itself serves: every call
  but the first of an array element consumes a character).
\<close>

datatype mode = Value | Elems "json list" | Members "(string \<times> json) list"

primrec parse :: "string \<Rightarrow> mode \<Rightarrow> string \<Rightarrow> (json \<times> string) option" where
  "parse [] m s = None"
| "parse (u # fuel) m s =
     (case m of
        Value \<Rightarrow>
          (if startswith s ''null'' then Some (JNull, drop 4 s)
           else if startswith s ''true'' then Some (JBool True, drop 4 s)
           else if startswith s ''false'' then Some (JBool False, drop 5 s)
           else case s of
             [] \<Rightarrow> None
           | c # rest \<Rightarrow>
               if c = CHR 0x22 then
                 (case scan_string rest of None \<Rightarrow> None | Some (str, r) \<Rightarrow> Some (JStr str, r))
               else if c = CHR ''['' then
                 (case skip_ws rest of
                    [] \<Rightarrow> None
                  | d # r \<Rightarrow> if d = CHR '']'' then Some (JArr [], r)
                             else parse fuel (Elems []) (d # r))
               else if c = CHR ''{'' then
                 (case skip_ws rest of
                    [] \<Rightarrow> None
                  | d # r \<Rightarrow> if d = CHR ''}'' then Some (JObj [], r)
                             else parse fuel (Members []) (d # r))
               else if c = CHR ''-'' then
                 (case scan_nat rest of None \<Rightarrow> None | Some (n, r) \<Rightarrow> Some (JInt (- n), r))
               else
                 (case scan_nat s of None \<Rightarrow> None | Some (n, r) \<Rightarrow> Some (JInt n, r)))
      | Elems acc \<Rightarrow>
          (case parse fuel Value s of
             None \<Rightarrow> None
           | Some (v, r) \<Rightarrow>
               (case skip_ws r of
                  [] \<Rightarrow> None
                | d # r' \<Rightarrow>
                    if d = CHR '','' then parse fuel (Elems (acc @ [v])) (skip_ws r')
                    else if d = CHR '']'' then Some (JArr (acc @ [v]), r')
                    else None))
      | Members acc \<Rightarrow>
          (case s of
             [] \<Rightarrow> None
           | q # s1 \<Rightarrow>
               if q \<noteq> CHR 0x22 then None
               else
                 (case scan_string s1 of
                    None \<Rightarrow> None
                  | Some (key, r) \<Rightarrow>
                      (case skip_ws r of
                         [] \<Rightarrow> None
                       | colon # r1 \<Rightarrow>
                           if colon \<noteq> CHR '':'' then None
                           else
                             (case parse fuel Value (skip_ws r1) of
                                None \<Rightarrow> None
                              | Some (v, r2) \<Rightarrow>
                                  (case skip_ws r2 of
                                     [] \<Rightarrow> None
                                   | d # r3 \<Rightarrow>
                                       if d = CHR '','' then
                                         parse fuel (Members (AList.update key v acc)) (skip_ws r3)
                                       else if d = CHR ''}'' then
                                         Some (JObj (AList.update key v acc), r3)
                                       else None))))))"

definition json_loads :: "string \<Rightarrow> json option" where
  "json_loads s =
     (case parse (CHR ''.'' # s) Value (skip_ws s) of
        None \<Rightarrow> None
      | Some (v, r) \<Rightarrow> if skip_ws r = [] then Some v else None)"

section \<open>More of Python, and a writer for JSON text\<close>

text \<open>
  Iterating over a Python object: a list gives its elements, a dict its keys, a string
  its characters; the other values are not iterable.
\<close>

fun py_iter :: "json \<Rightarrow> exn + json list" where
  "py_iter (JArr xs) = Inr xs"
| "py_iter (JObj kvs) = Inr (map (\<lambda>kv. JStr (fst kv)) kvs)"
| "py_iter (JStr s) = Inr (map (\<lambda>c. JStr [c]) s)"
| "py_iter _ = Inl TypeError"

text \<open>
  A value as an element of a set: lists and dicts are unhashable (TypeError), and \<^verbatim>\<open>True\<close>
  and \<^verbatim>\<open>False\<close> are the same elements as 1 and 0. Membership in a set of such elements is
  then Python's \<^verbatim>\<open>in\<close>.
\<close>

fun hash_key :: "json \<Rightarrow> exn + json" where
  "hash_key (JArr xs) = Inl TypeError"
| "hash_key (JObj kvs) = Inl TypeError"
| "hash_key (JBool b) = Inr (JInt (if b then 1 else 0))"
| "hash_key v = Inr v"

text \<open>\<^verbatim>\<open>xs + ys\<close> for a list \<open>ys\<close>: only a list can be added to a list.\<close>

fun list_add :: "json \<Rightarrow> json list \<Rightarrow> exn + json list" where
  "list_add (JArr xs) ys = Inr (xs @ ys)"
| "list_add _ ys = Inl TypeError"

text \<open>
  \<^verbatim>\<open>json.dumps(v, ensure_ascii=False, indent=...)\<close> stands in the definitions below as the
  parameter \<open>dumps\<close>; \<open>json_dumps\<close> is the library's function on the values of \<open>json\<close>, with
  \<open>indent = None\<close> (the lines of stage 1) or \<open>indent = Some 2\<close> (the collections).
\<close>

definition hex_digit :: "nat \<Rightarrow> char" where
  "hex_digit d = ''0123456789abcdef'' ! (d mod 16)"

definition escape_char :: "char \<Rightarrow> string" where
  "escape_char c =
     (if c = CHR 0x22 then [CHR 0x5C, CHR 0x22]
      else if c = CHR 0x5C then [CHR 0x5C, CHR 0x5C]
      else if c = CHR 0x0A then [CHR 0x5C, CHR ''n'']
      else if c = CHR 0x0D then [CHR 0x5C, CHR ''r'']
      else if c = CHR 0x09 then [CHR 0x5C, CHR ''t'']
      else if c = CHR 0x08 then [CHR 0x5C, CHR ''b'']
      else if c = CHR 0x0C then [CHR 0x5C, CHR ''f'']
      else if (of_char c :: nat) < 32
      then [CHR 0x5C, CHR ''u'', CHR ''0'', CHR ''0'',
            hex_digit (of_char c div 16), hex_digit (of_char c)]
      else [c])"

definition quote :: "string \<Rightarrow> string" where
  "quote s = [CHR 0x22] @ concat (map escape_char s) @ [CHR 0x22]"

function show_nat :: "nat \<Rightarrow> string" where
  "show_nat n =
     (if n < 10 then [''0123456789'' ! n]
      else show_nat (n div 10) @ [''0123456789'' ! (n mod 10)])"
  by pat_completeness auto
termination
  by (relation "measure id") auto

definition show_int :: "int \<Rightarrow> string" where
  "show_int i = (if i < 0 then CHR ''-'' # show_nat (nat (- i)) else show_nat (nat i))"

fun intercalate :: "string \<Rightarrow> string list \<Rightarrow> string" where
  "intercalate sep [] = []"
| "intercalate sep [x] = x"
| "intercalate sep (x # y # ys) = x @ sep @ intercalate sep (y # ys)"

definition newline_indent :: "nat option \<Rightarrow> nat \<Rightarrow> string" where
  "newline_indent indent level =
     (case indent of None \<Rightarrow> [] | Some n \<Rightarrow> CHR 0x0A # replicate (n * level) CHR 0x20)"

definition item_separator :: "nat option \<Rightarrow> nat \<Rightarrow> string" where
  "item_separator indent level =
     (case indent of None \<Rightarrow> '', '' | Some n \<Rightarrow> '','' @ newline_indent indent level)"

fun dumps_at :: "nat option \<Rightarrow> nat \<Rightarrow> json \<Rightarrow> string" where
  "dumps_at indent level JNull = ''null''"
| "dumps_at indent level (JBool b) = (if b then ''true'' else ''false'')"
| "dumps_at indent level (JInt i) = show_int i"
| "dumps_at indent level (JStr s) = quote s"
| "dumps_at indent level (JArr xs) =
     (if xs = [] then ''[]''
      else ''['' @ newline_indent indent (Suc level)
           @ intercalate (item_separator indent (Suc level))
               (map (dumps_at indent (Suc level)) xs)
           @ newline_indent indent level @ '']'')"
| "dumps_at indent level (JObj kvs) =
     (if kvs = [] then ''{}''
      else ''{'' @ newline_indent indent (Suc level)
           @ intercalate (item_separator indent (Suc level))
               (map (\<lambda>kv. quote (fst kv) @ '': '' @ dumps_at indent (Suc level) (snd kv)) kvs)
           @ newline_indent indent level @ ''}'')"

definition json_dumps :: "nat option \<Rightarrow> json \<Rightarrow> string" where
  "json_dumps indent v = dumps_at indent 0 v"

section \<open>Files\<close>

text \<open>
  A file system maps a path to the text of the file there, as \<^verbatim>\<open>read()\<close> in text mode
  returns it; \<^verbatim>\<open>os.path.exists\<close> is \<open>fs path \<noteq> None\<close>. It holds the regular files only: a
  directory is known as a part of the paths, and the directory of a file that is opened
  is taken to exist.
\<close>

type_synonym fs = "string \<rightharpoonup> string"

text \<open>\<^verbatim>\<open>for line in f\<close>: the lines of the text, each with its newline.\<close>

fun readlines_from :: "string \<Rightarrow> string \<Rightarrow> string list" where
  "readlines_from cur [] = (if cur = [] then [] else [cur])"
| "readlines_from cur (c # cs) =
     (if c = CHR 0x0A then (cur @ [c]) # readlines_from [] cs
      else readlines_from (cur @ [c]) cs)"

definition readlines :: "string \<Rightarrow> string list" where
  "readlines text = readlines_from [] text"




text \<open>
  The states of the file system while \<open>text\<close> is written to a file opened with mode
  \<^verbatim>\<open>"w"\<close>: opening truncates the file, then the file holds a longer and longer part of
  the text, and the whole text when it is closed. A process that is killed leaves one of
  these states behind.
\<close>

definition write_text :: "fs \<Rightarrow> string \<Rightarrow> string \<Rightarrow> fs list" where
  "write_text fs path text = map (\<lambda>k. fs(path \<mapsto> take k text)) [0..<Suc (length text)]"

section \<open>Stage 2: conversation generation (agent2_conversations.py)\<close>

definition MAX_RETRIES :: nat where
  "MAX_RETRIES = 3"

text \<open>
  The body of the \<^verbatim>\<open>try\<close> block of \<^verbatim>\<open>inference_generate_conversation\<close>, after the call to
  the service: \<open>resp\<close> is the text of the reply, \<open>None\<close> when the call raised. The
  parser \<^verbatim>\<open>json.loads\<close> is the parameter \<open>loads\<close> (\<open>None\<close>: it raised). \<open>loads_content\<close> is
  the block from \<^verbatim>\<open>content = ...strip()\<close> to \<^verbatim>\<open>conv = json.loads(content)\<close>.
\<close>

definition loads_content :: "(string \<Rightarrow> json option) \<Rightarrow> string \<Rightarrow> exn + json" where
  "loads_content loads raw =
     (let content = strip raw;
          content = (if startswith content fence_json
                     then strip (drop (length fence_json) content) else content);
          content = (if endswith content fence
                     then strip (take (length content - 3) content) else content)
      in case loads content of
           None \<Rightarrow> Inl JSONDecodeError
         | Some conv \<Rightarrow> Inr conv)"

definition parse_conversation :: "(string \<Rightarrow> json option) \<Rightarrow> string \<Rightarrow> exn + json" where
  "parse_conversation loads raw =
     (case loads_content loads raw of
        Inl e \<Rightarrow> Inl e
      | Inr conv \<Rightarrow> getitem conv ''conversation'')"

definition attempt :: "(string \<Rightarrow> json option) \<Rightarrow> string option \<Rightarrow> exn + json" where
  "attempt loads resp =
     (case resp of None \<Rightarrow> Inl APIError | Some raw \<Rightarrow> parse_conversation loads raw)"

definition prompt_payload :: "nat \<Rightarrow> json \<Rightarrow> json" where
  "prompt_payload n info_by_round =
     JObj [(''rounds'', JInt (int n)), (''info_by_round'', info_by_round)]"

text \<open>
  The external service is \<open>gateway\<close>: the reply to the call number \<open>calls\<close> with the given
  payload (\<^verbatim>\<open>clients[0]\<close> is the one client that \<^verbatim>\<open>init_client\<close> creates; the pause between
  two attempts has no effect on the values). The function returns its result and the number of calls made so far, so
  that every invocation of the service counts. \<^verbatim>\<open>len(info_by_round)\<close> is evaluated
  before the \<^verbatim>\<open>try\<close>: its TypeError is not retried.
\<close>

function inference_generate_conversation ::
  "(string \<Rightarrow> json option) \<Rightarrow> (nat \<Rightarrow> json \<Rightarrow> string option) \<Rightarrow> json \<Rightarrow> json \<Rightarrow>
     nat \<Rightarrow> nat \<Rightarrow> (exn + json) \<times> nat"
where
  "inference_generate_conversation loads gateway post_id info_by_round retry_count calls =
     (case py_len info_by_round of
        Inl e \<Rightarrow> (Inl e, calls)
      | Inr n \<Rightarrow>
          (case attempt loads (gateway calls (prompt_payload n info_by_round)) of
             Inr conv \<Rightarrow>
               (Inr (JObj [(''post_id'', post_id), (''conversation'', conv)]), Suc calls)
           | Inl e \<Rightarrow>
               if retry_count < MAX_RETRIES
               then inference_generate_conversation loads gateway post_id info_by_round
                      (retry_count + 1) (Suc calls)
               else (Inl Failure, Suc calls)))"
  by pat_completeness auto
termination
  by (relation "measure (\<lambda>(loads, gateway, post_id, info_by_round, retry_count, calls).
        MAX_RETRIES - retry_count)") auto

text \<open>A service that is down: every call raises.\<close>

definition always_down :: "nat \<Rightarrow> json \<Rightarrow> string option" where
  "always_down k payload = None"

subsection \<open>Loading the previous output, selecting the pending records, saving\<close>

text \<open>
  \<^verbatim>\<open>rec["post_id"]\<close> as an element of \<open>processed_ids\<close>, and the set comprehension
  \<^verbatim>\<open>{rec["post_id"] for rec in records}\<close>, which raises when one record has no identifier.
\<close>

definition record_id :: "json \<Rightarrow> exn + json" where
  "record_id r = (case getitem r ''post_id'' of Inl e \<Rightarrow> Inl e | Inr v \<Rightarrow> hash_key v)"

fun collect_ids :: "json list \<Rightarrow> exn + json set" where
  "collect_ids [] = Inr {}"
| "collect_ids (r # rs) =
     (case record_id r of
        Inl e \<Rightarrow> Inl e
      | Inr k \<Rightarrow> (case collect_ids rs of Inl e \<Rightarrow> Inl e | Inr ids \<Rightarrow> Inr (insert k ids)))"

text \<open>
  The fallback loop of \<^verbatim>\<open>load_processed_records\<close> over the lines of the file. A line that
  does not parse is skipped (JSONDecodeError is caught in the loop); another exception,
  such as the KeyError of a record without \<open>post_id\<close>, leaves the loop by the outer
  \<^verbatim>\<open>except\<close>, after the record has been appended.
\<close>

definition rstrip_comma :: "string \<Rightarrow> string" where
  "rstrip_comma s = rev (dropWhile (\<lambda>c. c = CHR '','') (rev s))"

fun load_lines ::
  "(string \<Rightarrow> json option) \<Rightarrow> string list \<Rightarrow> json list \<Rightarrow> json set \<Rightarrow> json list \<times> json set"
where
  "load_lines loads [] records processed_ids = (records, processed_ids)"
| "load_lines loads (l # ls) records processed_ids =
     (let line = rstrip_comma (strip l) in
      if line = [] \<or> line = ''['' \<or> line = '']''
      then load_lines loads ls records processed_ids
      else case loads line of
             None \<Rightarrow> load_lines loads ls records processed_ids
           | Some record \<Rightarrow>
               (case record_id record of
                  Inl e \<Rightarrow> (records @ [record], processed_ids)
                | Inr k \<Rightarrow> load_lines loads ls (records @ [record]) (insert k processed_ids)))"

text \<open>
  \<^verbatim>\<open>load_processed_records\<close>. When the text starts with a bracket and parses, the parsed
  value is bound to \<open>records\<close> before the identifiers are collected, so an exception in
  the comprehension returns the records with an empty set of identifiers.
\<close>

definition load_processed_records ::
  "(string \<Rightarrow> json option) \<Rightarrow> fs \<Rightarrow> string \<Rightarrow> json \<times> json set"
where
  "load_processed_records loads fs output_path =
     (let temp_path = output_path @ ''.temp'';
          output_path = (if fs temp_path \<noteq> None then temp_path else output_path)
      in case fs output_path of
           None \<Rightarrow> (JArr [], {})
         | Some text \<Rightarrow>
             (let content = strip text in
              case (if startswith content ''['' then loads content else None) of
                Some records \<Rightarrow>
                  (case py_iter records of
                     Inl e \<Rightarrow> (records, {})
                   | Inr rs \<Rightarrow>
                       (case collect_ids rs of
                          Inl e \<Rightarrow> (records, {})
                        | Inr processed_ids \<Rightarrow> (records, processed_ids)))
              | None \<Rightarrow>
                  (case load_lines loads (readlines text) [] {} of
                     (records, processed_ids) \<Rightarrow> (JArr records, processed_ids))))"


definition combined_records :: "json \<Rightarrow> json list \<Rightarrow> exn + json list" where
  "combined_records existing_records results = list_add existing_records results"


text \<open>
  \<^verbatim>\<open>process_record\<close>: the two subscripts are outside its \<^verbatim>\<open>try\<close>; a failed request gives
  \<^verbatim>\<open>None\<close>.
\<close>

definition process_record ::
  "(string \<Rightarrow> json option) \<Rightarrow> (nat \<Rightarrow> json \<Rightarrow> string option) \<Rightarrow> json \<Rightarrow> nat \<Rightarrow>
     (exn + json option) \<times> nat"
where
  "process_record loads gateway record calls =
     (case getitem record ''post_id'' of
        Inl e \<Rightarrow> (Inl e, calls)
      | Inr post_id \<Rightarrow>
          (case getitem record ''info_by_round'' of
             Inl e \<Rightarrow> (Inl e, calls)
           | Inr info_by_round \<Rightarrow>
               (case inference_generate_conversation loads gateway post_id info_by_round 0 calls of
                  (Inl e, calls') \<Rightarrow> (Inr None, calls')
                | (Inr result, calls') \<Rightarrow> (Inr (Some result), calls'))))"

section \<open>Stage 1: theme extraction (agent1_extract_information.py)\<close>

text \<open>
  \<^verbatim>\<open>JSON_OBJ_RE.search(text)\<close> for the pattern \<^verbatim>\<open>\{.*\}\<close> with DOTALL: the match starts at
  the first opening brace that has a closing brace after it, and is greedy, so it ends
  at the last closing brace of the text.
\<close>

definition JSON_OBJ_RE_search :: "string \<Rightarrow> string option" where
  "JSON_OBJ_RE_search text =
     (let from_brace = dropWhile (\<lambda>c. c \<noteq> CHR ''{'') text in
      if from_brace \<noteq> [] \<and> CHR ''}'' \<in> set (tl from_brace)
      then Some (rev (dropWhile (\<lambda>c. c \<noteq> CHR ''}'') (rev from_brace)))
      else None)"

text \<open>
  \<open>loads_text\<close> is the body of \<^verbatim>\<open>extract_round_info\<close> up to the value of \<open>data\<close>; the
  \<^verbatim>\<open>except Exception\<close> around the first \<^verbatim>\<open>json.loads\<close> covers that call only.
\<close>

definition loads_text :: "(string \<Rightarrow> json option) \<Rightarrow> string \<Rightarrow> exn + json" where
  "loads_text loads output =
     (let text = strip output;
          text = (if startswith text fence_json
                  then strip (drop (length fence_json) text) else text);
          text = (if endswith text fence
                  then strip (take (length text - 3) text) else text)
      in case loads text of
           Some data \<Rightarrow> Inr data
         | None \<Rightarrow>
             (case JSON_OBJ_RE_search text of
                Some m \<Rightarrow> (case loads m of None \<Rightarrow> Inl JSONDecodeError | Some data \<Rightarrow> Inr data)
              | None \<Rightarrow> Inr (JObj [])))"

definition extract_round_info :: "(string \<Rightarrow> json option) \<Rightarrow> string \<Rightarrow> exn + json \<times> json" where
  "extract_round_info loads output =
     (case loads_text loads output of
        Inl e \<Rightarrow> Inl e
      | Inr data \<Rightarrow>
          (case get data ''rounds'' of
             Inl e \<Rightarrow> Inl e
           | Inr rounds \<Rightarrow>
               (case get data ''info_by_round'' of
                  Inl e \<Rightarrow> Inl e
                | Inr info \<Rightarrow> Inr (rounds, info))))"



text \<open>
  What the workers share: the text of the output file (opened for appending), the set
  \<open>processed_ids\<close>, the global \<open>client_index\<close>, and the number of calls made to the service.
\<close>

record run_state =
  outf :: string
  processed_ids :: "json set"
  client_index :: nat
  calls_made :: nat

text \<open>\<^verbatim>\<open>get_client\<close>: the index of the client it returns, and the rotated state.\<close>

definition get_client :: "nat \<Rightarrow> run_state \<Rightarrow> exn + nat \<times> run_state" where
  "get_client n_clients st =
     (if client_index st < n_clients
      then Inr (client_index st, st\<lparr>client_index := (client_index st + 1) mod n_clients\<rparr>)
      else Inl IndexError)"

text \<open>
  \<^verbatim>\<open>inference_with_deepseek\<close>. The prompt is built from the post's content alone, so the
  service is given the content: \<open>gateway client k content\<close> is the reply of the client to
  the call number \<open>k\<close>, \<open>None\<close> when the call raises.
\<close>

definition inference_with_deepseek ::
  "(nat \<Rightarrow> nat \<Rightarrow> json \<Rightarrow> string option) \<Rightarrow> nat \<Rightarrow> run_state \<Rightarrow> json \<Rightarrow>
     (exn + string) \<times> run_state"
where
  "inference_with_deepseek gateway n_clients st content =
     (case get_client n_clients st of
        Inl e \<Rightarrow> (Inl e, st)
      | Inr (client, st1) \<Rightarrow>
          (case gateway client (calls_made st1) content of
             None \<Rightarrow> (Inl APIError, st1\<lparr>calls_made := Suc (calls_made st1)\<rparr>)
           | Some out \<Rightarrow> (Inr out, st1\<lparr>calls_made := Suc (calls_made st1)\<rparr>)))"

text \<open>\<^verbatim>\<open>d.get(key, default)\<close>.\<close>

fun get_default :: "json \<Rightarrow> string \<Rightarrow> json \<Rightarrow> exn + json" where
  "get_default (JObj kvs) k d = (case map_of kvs k of None \<Rightarrow> Inr d | Some v \<Rightarrow> Inr v)"
| "get_default _ k d = Inl AttributeError"

text \<open>
  One run of \<^verbatim>\<open>worker(post)\<close>. An exception before the \<^verbatim>\<open>try\<close> ends the worker (the
  future holds it, nobody reads it); one inside is caught and printed.
\<close>

definition worker ::
  "(string \<Rightarrow> json option) \<Rightarrow> (json \<Rightarrow> string) \<Rightarrow> (nat \<Rightarrow> nat \<Rightarrow> json \<Rightarrow> string option) \<Rightarrow> nat \<Rightarrow>
     run_state \<Rightarrow> json \<Rightarrow> run_state"
where
  "worker loads dumps gateway n_clients st post =
     (case get post ''post_id'' of
        Inl e \<Rightarrow> st
      | Inr pid \<Rightarrow>
          (case hash_key pid of
             Inl e \<Rightarrow> st
           | Inr k \<Rightarrow>
               if k \<in> processed_ids st then st
               else
                 (case get_default post ''content'' (JStr []) of
                    Inl e \<Rightarrow> st
                  | Inr content \<Rightarrow>
                      (case inference_with_deepseek gateway n_clients st content of
                         (Inl e, st1) \<Rightarrow> st1
                       | (Inr out, st1) \<Rightarrow>
                           (case extract_round_info loads out of
                              Inl e \<Rightarrow> st1
                            | Inr (rounds, info) \<Rightarrow>
                                if rounds = JNull \<or> info = JNull then st1
                                else
                                  (case get post ''file'' of
                                     Inl e \<Rightarrow> st1
                                   | Inr file \<Rightarrow>
                                       st1\<lparr>outf := outf st1 @
                                              dumps (JObj [(''post_id'', pid), (''file'', file),
                                                           (''rounds'', rounds),
                                                           (''info_by_round'', info)])
                                              @ [CHR 0x0A],
                                            processed_ids := insert k (processed_ids st1)\<rparr>))))))"


section \<open>Stage 3: counselor replies (agent3_thinking_psy.py)\<close>

text \<open>\<^verbatim>\<open>not conv.get("counselor_content") and conv.get("patient")\<close>, as the \<^verbatim>\<open>if\<close> reads it.\<close>

definition turn_pending :: "json \<Rightarrow> exn + bool" where
  "turn_pending conv =
     (case get conv ''counselor_content'' of
        Inl e \<Rightarrow> Inl e
      | Inr cc \<Rightarrow>
          if truthy cc then Inr False
          else (case get conv ''patient'' of Inl e \<Rightarrow> Inl e | Inr p \<Rightarrow> Inr (truthy p)))"

text \<open>The history of the turns before a turn, as the messages sent to the service.\<close>

definition message :: "string \<Rightarrow> json \<Rightarrow> json" where
  "message role content = JObj [(''role'', JStr role), (''content'', content)]"

fun conversation_history :: "json list \<Rightarrow> exn + json list" where
  "conversation_history [] = Inr []"
| "conversation_history (prev_conv # rest) =
     (case get prev_conv ''counselor_content'' of
        Inl e \<Rightarrow> Inl e
      | Inr cc \<Rightarrow>
          (case get prev_conv ''patient'' of
             Inl e \<Rightarrow> Inl e
           | Inr p \<Rightarrow>
               (case conversation_history rest of
                  Inl e \<Rightarrow> Inl e
                | Inr h \<Rightarrow>
                    Inr ((if truthy cc then [message ''assistant'' cc] else [])
                         @ (if truthy p then [message ''user'' p] else []) @ h))))"

type_synonym task = "nat \<times> nat \<times> json \<times> json list"

text \<open>
  The inner loop over \<^verbatim>\<open>enumerate(post.get("conversation", []))\<close>: \<open>convs\<close> is the whole
  conversation, \<open>j\<close> the index of the first turn of \<open>rest\<close>.
\<close>

fun conv_tasks :: "nat \<Rightarrow> json list \<Rightarrow> nat \<Rightarrow> json list \<Rightarrow> exn + task list" where
  "conv_tasks i convs j [] = Inr []"
| "conv_tasks i convs j (conv # rest) =
     (case turn_pending conv of
        Inl e \<Rightarrow> Inl e
      | Inr pending \<Rightarrow>
          (case (if pending
                 then (case conversation_history (take j convs) of
                         Inl e \<Rightarrow> Inl e
                       | Inr h \<Rightarrow>
                           (case getitem conv ''patient'' of
                              Inl e \<Rightarrow> Inl e
                            | Inr p \<Rightarrow> Inr [(i, j, p, h)]))
                 else Inr []) of
             Inl e \<Rightarrow> Inl e
           | Inr t \<Rightarrow>
               (case conv_tasks i convs (Suc j) rest of
                  Inl e \<Rightarrow> Inl e
                | Inr ts \<Rightarrow> Inr (t @ ts))))"

fun prepare_tasks :: "nat \<Rightarrow> json list \<Rightarrow> exn + task list" where
  "prepare_tasks i [] = Inr []"
| "prepare_tasks i (post # rest) =
     (case get_default post ''conversation'' (JArr []) of
        Inl e \<Rightarrow> Inl e
      | Inr c \<Rightarrow>
          (case py_iter c of
             Inl e \<Rightarrow> Inl e
           | Inr convs \<Rightarrow>
               (case conv_tasks i convs 0 convs of
                  Inl e \<Rightarrow> Inl e
                | Inr ts \<Rightarrow>
                    (case prepare_tasks (Suc i) rest of
                       Inl e \<Rightarrow> Inl e
                     | Inr others \<Rightarrow> Inr (ts @ others)))))"

text \<open>\<^verbatim>\<open>d[key] = value\<close> on a dict: the key keeps its place, a new key goes last.\<close>

fun setitem :: "json \<Rightarrow> string \<Rightarrow> json \<Rightarrow> exn + json" where
  "setitem (JObj kvs) k v = Inr (JObj (AList.update k v kvs))"
| "setitem _ k v = Inl TypeError"

text \<open>\<^verbatim>\<open>xs[i]\<close> for an index that \<^verbatim>\<open>enumerate\<close> gave (never negative).\<close>

fun index :: "json \<Rightarrow> nat \<Rightarrow> exn + json" where
  "index (JArr xs) i = (if i < length xs then Inr (xs ! i) else Inl IndexError)"
| "index (JStr s) i = (if i < length s then Inr (JStr [s ! i]) else Inl IndexError)"
| "index (JObj kvs) i = Inl KeyError"
| "index _ i = Inl TypeError"

text \<open>
  The update of the loop over the completed futures:
  \<^verbatim>\<open>conv = posts[post_idx]["conversation"][conv_idx]\<close>, then the two assignments to
  \<open>conv\<close>. The objects come from \<^verbatim>\<open>json.load\<close>, so no two places share a dict and the
  in-place update is the update of that one place.
\<close>

definition update_turn :: "json list \<Rightarrow> nat \<Rightarrow> nat \<Rightarrow> json \<Rightarrow> json \<Rightarrow> exn + json list" where
  "update_turn posts post_idx conv_idx reply think =
     (case index (JArr posts) post_idx of
        Inl e \<Rightarrow> Inl e
      | Inr post \<Rightarrow>
          (case getitem post ''conversation'' of
             Inl e \<Rightarrow> Inl e
           | Inr c \<Rightarrow>
               (case index c conv_idx of
                  Inl e \<Rightarrow> Inl e
                | Inr conv \<Rightarrow>
                    (case setitem conv ''counselor_content'' reply of
                       Inl e \<Rightarrow> Inl e
                     | Inr conv1 \<Rightarrow>
                         (case setitem conv1 ''counselor_think'' think of
                            Inl e \<Rightarrow> Inl e
                          | Inr conv2 \<Rightarrow>
                              (case c of
                                 JArr convs \<Rightarrow>
                                   (case setitem post ''conversation''
                                           (JArr (convs[conv_idx := conv2])) of
                                      Inl e \<Rightarrow> Inl e
                                    | Inr post' \<Rightarrow> Inr (posts[post_idx := post']))
                               | _ \<Rightarrow> Inl TypeError))))))"

text \<open>
  The loop over \<^verbatim>\<open>as_completed\<close>: the futures in the order they complete, each with
  its task and its outcome (the exception, or the reply and the reasoning text). A failed
  future is skipped. The collection is written after every tenth update.
\<close>

definition write_json_file :: "(json \<Rightarrow> string) \<Rightarrow> fs \<Rightarrow> string \<Rightarrow> json list \<Rightarrow> fs list" where
  "write_json_file dumps fs filename posts = write_text fs filename (dumps (JArr posts))"

fun completed ::
  "(json \<Rightarrow> string) \<Rightarrow> string \<Rightarrow> (task \<times> (exn + json \<times> json)) list \<Rightarrow>
     json list \<times> nat \<times> fs \<Rightarrow> exn + json list \<times> nat \<times> fs"
where
  "completed dumps output_file [] st = Inr st"
| "completed dumps output_file (((post_idx, conv_idx, p, h), outcome) # rest)
       (posts, update_counter, fs) =
     (case outcome of
        Inl e \<Rightarrow> completed dumps output_file rest (posts, update_counter, fs)
      | Inr (reply, think) \<Rightarrow>
          (case update_turn posts post_idx conv_idx reply think of
             Inl e \<Rightarrow> Inl e
           | Inr posts' \<Rightarrow>
               completed dumps output_file rest
                 (posts', Suc update_counter,
                  if Suc update_counter mod 10 = 0
                  then last (write_json_file dumps fs output_file posts')
                  else fs)))"

section \<open>Stage 4: quality filter (agent4_filter.py)\<close>

text \<open>\<^verbatim>\<open>str.splitlines()\<close>: the line boundaries among the code points below 256.\<close>

definition is_linebreak :: "char \<Rightarrow> bool" where
  "is_linebreak c = (c \<in> set [CHR 0x0A, CHR 0x0B, CHR 0x0C, CHR 0x0D,
       CHR 0x1C, CHR 0x1D, CHR 0x1E, CHR 0x85])"

fun splitlines_from :: "string \<Rightarrow> string \<Rightarrow> string list" where
  "splitlines_from cur [] = (if cur = [] then [] else [cur])"
| "splitlines_from cur [c] = (if is_linebreak c then [cur] else [cur @ [c]])"
| "splitlines_from cur (c # d # cs) =
     (if c = CHR 0x0D \<and> d = CHR 0x0A then cur # splitlines_from [] cs
      else if is_linebreak c then cur # splitlines_from [] (d # cs)
      else splitlines_from (cur @ [c]) (d # cs))"

definition splitlines :: "string \<Rightarrow> string list" where
  "splitlines s = splitlines_from [] s"

text \<open>
  The block that removes a Markdown fence: the lines after the first one, up to the
  first line that starts with three backquotes, joined again.
\<close>

definition unfence_lines :: "string \<Rightarrow> string" where
  "unfence_lines raw =
     (let result_text = strip raw in
      if startswith result_text fence
      then strip (intercalate [CHR 0x0A]
                    (takeWhile (\<lambda>line. \<not> startswith (strip line) fence)
                       (tl (splitlines result_text))))
      else result_text)"

text \<open>
  \<^verbatim>\<open>k in result\<close> for a string \<open>k\<close>: a key of a dict, an element of a list, a substring
  of a string; the other values are not containers.
\<close>

fun substring :: "string \<Rightarrow> string \<Rightarrow> bool" where
  "substring k [] = (k = [])"
| "substring k (c # cs) = (startswith (c # cs) k \<or> substring k cs)"

fun py_in :: "string \<Rightarrow> json \<Rightarrow> exn + bool" where
  "py_in k (JObj kvs) = Inr (k \<in> fst ` set kvs)"
| "py_in k (JArr xs) = Inr (JStr k \<in> set xs)"
| "py_in k (JStr s) = Inr (substring k s)"
| "py_in k _ = Inl TypeError"

fun all_in :: "string list \<Rightarrow> json \<Rightarrow> exn + bool" where
  "all_in [] result = Inr True"
| "all_in (k # ks) result =
     (case py_in k result of
        Inl e \<Rightarrow> Inl e
      | Inr b \<Rightarrow> if b then all_in ks result else Inr False)"

text \<open>
  The result of the \<^verbatim>\<open>except\<close> branch. \<open>str_exn\<close> is the text of the exception, which
  the library fixes.
\<close>

definition reject :: "(exn \<Rightarrow> string \<Rightarrow> string) \<Rightarrow> exn \<Rightarrow> string \<Rightarrow> json" where
  "reject str_exn e result_text =
     JObj [(''keep'', JBool False), (''issues'', JArr []),
           (''reason'', JStr (''Invalid model response: '' @ str_exn e result_text
                              @ '' | Raw output: '' @ result_text))]"

text \<open>The part of \<^verbatim>\<open>inference_with_deepseek_v3\<close> after the reply has arrived.\<close>

definition review_reply ::
  "(exn \<Rightarrow> string \<Rightarrow> string) \<Rightarrow> (string \<Rightarrow> json option) \<Rightarrow> string \<Rightarrow> json"
where
  "review_reply str_exn loads raw =
     (let result_text = unfence_lines raw in
      case loads result_text of
        None \<Rightarrow> reject str_exn JSONDecodeError result_text
      | Some result \<Rightarrow>
          (case all_in [''keep'', ''issues'', ''reason''] result of
             Inl e \<Rightarrow> reject str_exn e result_text
           | Inr ok \<Rightarrow> if ok then result else reject str_exn ValueError result_text))"

text \<open>
  The whole function: the client rotation, the call (outside the \<^verbatim>\<open>try\<close>: its
  exception propagates) and the review of the reply. The state is the client index and
  the number of calls made.
\<close>

definition inference_with_deepseek_v3 ::
  "(exn \<Rightarrow> string \<Rightarrow> string) \<Rightarrow> (string \<Rightarrow> json option) \<Rightarrow> (nat \<Rightarrow> nat \<Rightarrow> string \<Rightarrow> string option) \<Rightarrow>
     nat \<Rightarrow> nat \<times> nat \<Rightarrow> string \<Rightarrow> exn + json \<times> (nat \<times> nat)"
where
  "inference_with_deepseek_v3 str_exn loads gateway n_clients st sample_json_str =
     (case st of (current_client_index, n_calls) \<Rightarrow>
        if \<not> current_client_index < n_clients then Inl IndexError
        else
          (case gateway current_client_index n_calls sample_json_str of
             None \<Rightarrow> Inl APIError
           | Some raw \<Rightarrow>
               Inr (review_reply str_exn loads raw,
                    ((current_client_index + 1) mod n_clients, Suc n_calls))))"

text \<open>The loop of \<^verbatim>\<open>main\<close>; the results are written once, after the loop.\<close>

fun filter_posts ::
  "(exn \<Rightarrow> string \<Rightarrow> string) \<Rightarrow> (string \<Rightarrow> json option) \<Rightarrow> (json \<Rightarrow> string) \<Rightarrow>
     (nat \<Rightarrow> nat \<Rightarrow> string \<Rightarrow> string option) \<Rightarrow> nat \<Rightarrow> nat \<times> nat \<Rightarrow> json list \<Rightarrow> exn + json list"
where
  "filter_posts str_exn loads dumps gateway n_clients st [] = Inr []"
| "filter_posts str_exn loads dumps gateway n_clients st (post # rest) =
     (case get post ''post_id'' of
        Inl e \<Rightarrow> Inl e
      | Inr post_id \<Rightarrow>
          (case inference_with_deepseek_v3 str_exn loads gateway n_clients st (dumps post) of
             Inl e \<Rightarrow> Inl e
           | Inr (result, st') \<Rightarrow>
               (case setitem result ''post_id'' post_id of
                  Inl e \<Rightarrow> Inl e
                | Inr result' \<Rightarrow>
                    (case filter_posts str_exn loads dumps gateway n_clients st' rest of
                       Inl e \<Rightarrow> Inl e
                     | Inr results \<Rightarrow> Inr (result' # results)))))"

section \<open>Client rotation by concurrent workers\<close>

text \<open>
  \<^verbatim>\<open>get_client\<close> of stage 1 is called by \<^verbatim>\<open>inference_with_deepseek\<close> in the threads of the
  pool, outside the lock that the module has. Its two statements access the global
  \<open>client_index\<close> three times: a read to select the client, a read to compute the next
  index, and the write of the next index; the interpreter can switch to another thread
  between any two of these accesses. A thread is at one of these points: \<open>pc = 0\<close> before
  the selection, \<open>1\<close> before the second read, \<open>2\<close> before the write, \<open>3\<close> when it has
  returned. A schedule names the thread that makes the next access.
\<close>

record thread =
  pc :: nat
  selected :: "nat option"
  next_index :: nat

definition new_thread :: thread where
  "new_thread = \<lparr>pc = 0, selected = None, next_index = 0\<rparr>"

definition thread_step :: "nat \<Rightarrow> nat \<times> thread list \<Rightarrow> nat \<Rightarrow> nat \<times> thread list" where
  "thread_step n_clients st tid =
     (case st of (shared_index, threads) \<Rightarrow>
        if \<not> tid < length threads then st
        else
          (let t = threads ! tid in
           if pc t = 0
           then (shared_index, threads[tid := t\<lparr>pc := 1, selected := Some shared_index\<rparr>])
           else if pc t = 1
           then (shared_index,
                 threads[tid := t\<lparr>pc := 2, next_index := (shared_index + 1) mod n_clients\<rparr>])
           else if pc t = 2
           then (next_index t, threads[tid := t\<lparr>pc := 3\<rparr>])
           else st))"

definition run_threads :: "nat \<Rightarrow> nat \<times> thread list \<Rightarrow> nat list \<Rightarrow> nat \<times> thread list" where
  "run_threads n_clients st schedule = foldl (thread_step n_clients) st schedule"

section \<open>Notions of the properties\<close>

text \<open>The identifiers of a list of records, and whether a record's identifier is among given ones.\<close>

definition id_set :: "json list \<Rightarrow> json set" where
  "id_set rs = {k. \<exists>r\<in>set rs. record_id r = Inr k}"


text \<open>
  The records of a line-delimited text: the values of the lines that parse, in the order
  of the lines, where a line is taken without its surrounding white space and trailing
  commas, and an empty line or a line that is a single bracket is left out.
\<close>

definition line_records :: "(string \<Rightarrow> json option) \<Rightarrow> string list \<Rightarrow> json list" where
  "line_records loads ls =
     List.map_filter loads
       (filter (\<lambda>line. line \<noteq> [] \<and> line \<noteq> ''['' \<and> line \<noteq> '']'')
          (map (\<lambda>l. rstrip_comma (strip l)) ls))"

text \<open>How often an identifier occurs in a collection.\<close>

definition occurrences :: "json \<Rightarrow> json list \<Rightarrow> nat" where
  "occurrences k rs = length (filter (\<lambda>r. record_id r = Inr k) rs)"



text \<open>A service of stage 1 whose reply lacks \<open>info_by_round\<close>.\<close>

definition incomplete_gateway :: "nat \<Rightarrow> nat \<Rightarrow> json \<Rightarrow> string option" where
  "incomplete_gateway client k content = Some ''{\"rounds\": 1}''"

text \<open>
  The parser the specification describes, to compare the stages with: a strict parse of
  the raw text, then a parse after stripping the surrounding fence markers, then a parse
  of the largest embedded object, then rejection (\<open>None\<close>).
\<close>

definition strip_fences :: "string \<Rightarrow> string" where
  "strip_fences raw =
     (let t = strip raw;
          t = (if startswith t fence_json then strip (drop (length fence_json) t) else t)
      in if endswith t fence then strip (take (length t - 3) t) else t)"

definition spec_lenient_parse :: "(string \<Rightarrow> json option) \<Rightarrow> string \<Rightarrow> json option" where
  "spec_lenient_parse loads raw =
     (case loads raw of
        Some v \<Rightarrow> Some v
      | None \<Rightarrow>
          (case loads (strip_fences raw) of
             Some v \<Rightarrow> Some v
           | None \<Rightarrow>
               (case JSON_OBJ_RE_search raw of
                  None \<Rightarrow> None
                | Some m \<Rightarrow> loads m)))"

text \<open>The name of an exception, in place of the message the library gives it.\<close>

fun exn_name :: "exn \<Rightarrow> string \<Rightarrow> string" where
  "exn_name KeyError t = ''KeyError''"
| "exn_name TypeError t = ''TypeError''"
| "exn_name AttributeError t = ''AttributeError''"
| "exn_name ValueError t = ''ValueError''"
| "exn_name JSONDecodeError t = ''JSONDecodeError''"
| "exn_name APIError t = ''APIError''"
| "exn_name IndexError t = ''IndexError''"
| "exn_name FileNotFoundError t = ''FileNotFoundError''"
| "exn_name FileExistsError t = ''FileExistsError''"
| "exn_name NotADirectoryError t = ''NotADirectoryError''"
| "exn_name Failure t = ''Exception''"

text \<open>A service of stage 4 whose reply is a JSON list of the three key names.\<close>

definition key_list_gateway :: "nat \<Rightarrow> nat \<Rightarrow> string \<Rightarrow> string option" where
  "key_list_gateway client k sample = Some ''[\"keep\", \"issues\", \"reason\"]''"

text \<open>
  The turn \<open>j\<close> of the post \<open>i\<close> of a collection, when the post has a list of turns and
  the list is long enough.
\<close>

definition turn_at :: "json list \<Rightarrow> nat \<Rightarrow> nat \<Rightarrow> json option" where
  "turn_at posts i j =
     (if i < length posts
      then (case getitem (posts ! i) ''conversation'' of
              Inr (JArr convs) \<Rightarrow> if j < length convs then Some (convs ! j) else None
            | _ \<Rightarrow> None)
      else None)"

text \<open>
  What the loop over the completed futures may change between two collections: nothing
  but the two reply fields of the turns at the places \<open>D\<close>.
\<close>

definition only_replies_changed :: "(nat \<times> nat) set \<Rightarrow> json list \<Rightarrow> json list \<Rightarrow> bool" where
  "only_replies_changed D posts posts' \<longleftrightarrow>
     length posts' = length posts \<and>
     (\<forall>i j. (turn_at posts' i j = None) = (turn_at posts i j = None)) \<and>
     (\<forall>i j t t'. turn_at posts i j = Some t \<longrightarrow> turn_at posts' i j = Some t' \<longrightarrow>
        (\<forall>k. k \<noteq> ''counselor_content'' \<longrightarrow> k \<noteq> ''counselor_think'' \<longrightarrow> get t' k = get t k) \<and>
        ((i, j) \<notin> D \<longrightarrow> t' = t)) \<and>
     (\<forall>i k. i < length posts \<longrightarrow> k \<noteq> ''conversation'' \<longrightarrow>
        get (posts' ! i) k = get (posts ! i) k)"

text \<open>The place a task writes to.\<close>

definition task_index :: "task \<Rightarrow> nat \<times> nat" where
  "task_index t = (fst t, fst (snd t))"

text \<open>A collection of stage 3 with one answered and one open turn.\<close>

definition example_posts :: "json list" where
  "example_posts =
     [JObj [(''post_id'', JStr ''p1''),
            (''conversation'', JArr
               [JObj [(''round'', JInt 1), (''patient'', JStr ''I feel anxious''),
                      (''counselor_content'', JStr ''Tell me more''),
                      (''counselor_think'', JStr ''an opening'')],
                JObj [(''round'', JInt 2), (''patient'', JStr ''It is my work'')]])]]"

section \<open>Properties\<close>

subsection \<open>Retries of the conversation request\<close>

declare inference_generate_conversation.simps [simp del]

lemma igc_len_error:
  "py_len info = Inl e \<Longrightarrow>
   inference_generate_conversation loads gateway post_id info rc calls = (Inl e, calls)"
  by (subst inference_generate_conversation.simps) simp

lemma igc_success:
  "py_len info = Inr n \<Longrightarrow> attempt loads (gateway calls (prompt_payload n info)) = Inr conv \<Longrightarrow>
   inference_generate_conversation loads gateway post_id info rc calls =
     (Inr (JObj [(''post_id'', post_id), (''conversation'', conv)]), Suc calls)"
  by (subst inference_generate_conversation.simps) simp

lemma igc_retry:
  "py_len info = Inr n \<Longrightarrow> attempt loads (gateway calls (prompt_payload n info)) = Inl e \<Longrightarrow>
   rc < MAX_RETRIES \<Longrightarrow>
   inference_generate_conversation loads gateway post_id info rc calls =
     inference_generate_conversation loads gateway post_id info (Suc rc) (Suc calls)"
  by (subst inference_generate_conversation.simps) simp

lemma igc_exhausted:
  "py_len info = Inr n \<Longrightarrow> attempt loads (gateway calls (prompt_payload n info)) = Inl e \<Longrightarrow>
   \<not> rc < MAX_RETRIES \<Longrightarrow>
   inference_generate_conversation loads gateway post_id info rc calls = (Inl Failure, Suc calls)"
  by (subst inference_generate_conversation.simps) simp

lemma igc_calls_bound:
  "snd (inference_generate_conversation loads gateway post_id info rc calls)
     \<le> calls + Suc (MAX_RETRIES - rc)"
proof (induction "MAX_RETRIES - rc" arbitrary: rc calls)
  case 0
  then have nlt: "\<not> rc < MAX_RETRIES" by simp
  show ?case
  proof (cases "py_len info")
    case (Inl e)
    then show ?thesis by (simp add: igc_len_error)
  next
    case (Inr n)
    show ?thesis
    proof (cases "attempt loads (gateway calls (prompt_payload n info))")
      case (Inl e)
      with Inr nlt show ?thesis by (simp add: igc_exhausted)
    next
      case (Inr conv)
      with \<open>py_len info = Inr n\<close> show ?thesis by (simp add: igc_success)
    qed
  qed
next
  case (Suc d)
  then have lt: "rc < MAX_RETRIES" and d: "d = MAX_RETRIES - Suc rc" by simp_all
  show ?case
  proof (cases "py_len info")
    case (Inl e)
    then show ?thesis by (simp add: igc_len_error)
  next
    case (Inr n)
    show ?thesis
    proof (cases "attempt loads (gateway calls (prompt_payload n info))")
      case (Inl e)
      have "snd (inference_generate_conversation loads gateway post_id info (Suc rc) (Suc calls))
              \<le> Suc calls + Suc (MAX_RETRIES - Suc rc)"
        using Suc.hyps(1) [OF d] .
      with Inl Inr lt show ?thesis by (simp add: igc_retry)
    next
      case (Inr conv)
      with \<open>py_len info = Inr n\<close> show ?thesis by (simp add: igc_success)
    qed
  qed
qed

lemma igc_failure_only_after:
  "fst (inference_generate_conversation loads gateway post_id info rc calls) = Inl Failure \<Longrightarrow>
   \<exists>n. py_len info = Inr n \<and>
     snd (inference_generate_conversation loads gateway post_id info rc calls)
        = calls + Suc (MAX_RETRIES - rc) \<and>
     (\<forall>k<Suc (MAX_RETRIES - rc).
        \<exists>e. attempt loads (gateway (calls + k) (prompt_payload n info)) = Inl e)"
proof (induction "MAX_RETRIES - rc" arbitrary: rc calls)
  case 0
  then have nlt: "\<not> rc < MAX_RETRIES" by simp
  show ?case
  proof (cases "py_len info")
    case (Inl e)
    with 0(2) have "e = Failure" by (simp add: igc_len_error)
    with Inl show ?thesis by (cases info) simp_all
  next
    case (Inr n)
    show ?thesis
    proof (cases "attempt loads (gateway calls (prompt_payload n info))")
      case (Inl e)
      with Inr nlt 0(1) show ?thesis by (simp add: igc_exhausted)
    next
      case (Inr conv)
      with \<open>py_len info = Inr n\<close> 0(2) show ?thesis by (simp add: igc_success)
    qed
  qed
next
  case (Suc d)
  then have lt: "rc < MAX_RETRIES" and d: "d = MAX_RETRIES - Suc rc" by simp_all
  show ?case
  proof (cases "py_len info")
    case (Inl e)
    with Suc(3) have "e = Failure" by (simp add: igc_len_error)
    with Inl show ?thesis by (cases info) simp_all
  next
    case (Inr n)
    show ?thesis
    proof (cases "attempt loads (gateway calls (prompt_payload n info))")
      case (Inl e)
      have eq: "inference_generate_conversation loads gateway post_id info rc calls =
            inference_generate_conversation loads gateway post_id info (Suc rc) (Suc calls)"
        by (rule igc_retry [where gateway = gateway and calls = calls, OF Inr Inl lt])
      with Suc(3) have
        "fst (inference_generate_conversation loads gateway post_id info (Suc rc) (Suc calls)) = Inl Failure"
        by simp
      from Suc.hyps(1) [OF d this] Inr
      have s: "snd (inference_generate_conversation loads gateway post_id info (Suc rc) (Suc calls))
                = Suc calls + Suc (MAX_RETRIES - Suc rc)"
        and a: "\<forall>k<Suc (MAX_RETRIES - Suc rc).
                 \<exists>e. attempt loads (gateway (Suc calls + k) (prompt_payload n info)) = Inl e"
        by auto
      have m: "MAX_RETRIES - rc = Suc (MAX_RETRIES - Suc rc)" using lt by simp
      have "\<forall>k<Suc (MAX_RETRIES - rc).
                 \<exists>e. attempt loads (gateway (calls + k) (prompt_payload n info)) = Inl e"
      proof (intro allI impI)
        fix k assume k: "k < Suc (MAX_RETRIES - rc)"
        show "\<exists>e. attempt loads (gateway (calls + k) (prompt_payload n info)) = Inl e"
        proof (cases k)
          case 0
          with Inl show ?thesis by simp
        next
          case (Suc j)
          with k m have "j < Suc (MAX_RETRIES - Suc rc)" by simp
          with a Suc show ?thesis by simp
        qed
      qed
      with s eq m Inr show ?thesis by simp
    next
      case (Inr conv)
      with \<open>py_len info = Inr n\<close> Suc(3) show ?thesis by (simp add: igc_success)
    qed
  qed
qed

text \<open>
  C1, as the code has it. A request for one record calls the service at most
  \<open>MAX_RETRIES + 1\<close> times: the first attempt and \<open>MAX_RETRIES\<close> retries. It raises the
  final exception only after \<open>MAX_RETRIES + 1\<close> calls, every one of which failed.
\<close>

theorem inference_generate_conversation_attempts:
  "snd (inference_generate_conversation loads gateway post_id info 0 calls)
      \<le> calls + (MAX_RETRIES + 1) \<and>
   (fst (inference_generate_conversation loads gateway post_id info 0 calls) = Inl Failure \<longrightarrow>
      snd (inference_generate_conversation loads gateway post_id info 0 calls)
        = calls + (MAX_RETRIES + 1) \<and>
      (\<exists>n. py_len info = Inr n \<and>
         (\<forall>k<MAX_RETRIES + 1.
            \<exists>e. attempt loads (gateway (calls + k) (prompt_payload n info)) = Inl e)))"
proof (intro conjI impI)
  show "snd (inference_generate_conversation loads gateway post_id info 0 calls)
      \<le> calls + (MAX_RETRIES + 1)"
    using igc_calls_bound [of loads gateway post_id info 0 calls] by simp
next
  assume f: "fst (inference_generate_conversation loads gateway post_id info 0 calls) = Inl Failure"
  from igc_failure_only_after [OF f]
  show "snd (inference_generate_conversation loads gateway post_id info 0 calls)
        = calls + (MAX_RETRIES + 1)"
    by auto
next
  assume f: "fst (inference_generate_conversation loads gateway post_id info 0 calls) = Inl Failure"
  from igc_failure_only_after [OF f]
  show "\<exists>n. py_len info = Inr n \<and>
         (\<forall>k<MAX_RETRIES + 1.
            \<exists>e. attempt loads (gateway (calls + k) (prompt_payload n info)) = Inl e)"
    by auto
qed

lemma always_down_run:
  "inference_generate_conversation json_loads always_down (JStr ''p1'') (JArr []) 0 0
     = (Inl Failure, 4)"
  by (simp add: inference_generate_conversation.simps attempt_def always_down_def MAX_RETRIES_def)

theorem inference_generate_conversation_attempts_witness:
  "fst (inference_generate_conversation json_loads always_down (JStr ''p1'') (JArr []) 0 0)
     = Inl Failure \<and>
   snd (inference_generate_conversation json_loads always_down (JStr ''p1'') (JArr []) 0 0)
     = 0 + (MAX_RETRIES + 1)"
  using inference_generate_conversation_attempts
          [of json_loads always_down "JStr ''p1''" "JArr []" 0]
  by (simp add: always_down_run)

text \<open>
  C1 as stated fails: with the service down the function makes four calls for one
  record before it raises, one more than \<open>MAX_RETRIES\<close>.
\<close>

theorem inference_generate_conversation_counterexample:
  "fst (inference_generate_conversation json_loads always_down (JStr ''p1'') (JArr []) 0 0)
     = Inl Failure \<and>
   snd (inference_generate_conversation json_loads always_down (JStr ''p1'') (JArr []) 0 0) = 4 \<and>
   \<not> snd (inference_generate_conversation json_loads always_down (JStr ''p1'') (JArr []) 0 0)
       \<le> 0 + MAX_RETRIES"
  by (simp add: always_down_run MAX_RETRIES_def)

subsection \<open>Evaluation of the library functions on concrete texts\<close>

lemmas json_eval = json_loads_def skip_ws_def json_ws_def scan_string_def scan_nat_def
  plain_char_def is_digit_def digit_val_def startswith_def

lemmas str_eval = strip_def isspace_def endswith_def fence_def fence_json_def

subsection \<open>The checkpoint merge\<close>

lemma occurrences_append:
  "occurrences k (xs @ ys) = occurrences k xs + occurrences k ys"
  by (simp add: occurrences_def)

text \<open>
  C4, as the code has it. The merge is the concatenation of the existing collection and
  the new results, in this order, without deduplication: an identifier occurs in the
  merged collection as often as in the two lists together. It occurs at most once
  there when it occurs at most once in each list and in at most one of them.
\<close>

theorem combined_records_is_concatenation:
  "combined_records (JArr existing) results = Inr (existing @ results) \<and>
   (\<forall>k. occurrences k (existing @ results) = occurrences k existing + occurrences k results) \<and>
   ((\<forall>k. occurrences k existing \<le> 1) \<and> (\<forall>k. occurrences k results \<le> 1) \<and>
    (\<forall>k. occurrences k existing = 0 \<or> occurrences k results = 0)
    \<longrightarrow> (\<forall>k. occurrences k (existing @ results) \<le> 1))"
proof (intro conjI impI allI)
  show "combined_records (JArr existing) results = Inr (existing @ results)"
    by (simp add: combined_records_def)
next
  fix k show "occurrences k (existing @ results) = occurrences k existing + occurrences k results"
    by (rule occurrences_append)
next
  fix k
  assume a: "(\<forall>k. occurrences k existing \<le> 1) \<and> (\<forall>k. occurrences k results \<le> 1) \<and>
    (\<forall>k. occurrences k existing = 0 \<or> occurrences k results = 0)"
  then have "occurrences k existing \<le> 1" and "occurrences k results \<le> 1"
    and "occurrences k existing = 0 \<or> occurrences k results = 0" by simp_all
  then show "occurrences k (existing @ results) \<le> 1"
    by (auto simp: occurrences_append)
qed

theorem combined_records_is_concatenation_witness:
  "\<forall>k. occurrences k ([JObj [(''post_id'', JStr ''p1''), (''conversation'', JArr [])]]
                      @ [JObj [(''post_id'', JStr ''p2''), (''conversation'', JArr [])]]) \<le> 1"
  using combined_records_is_concatenation
    [of "[JObj [(''post_id'', JStr ''p1''), (''conversation'', JArr [])]]"
        "[JObj [(''post_id'', JStr ''p2''), (''conversation'', JArr [])]]"]
  by (simp add: occurrences_def record_id_def)

text \<open>
  C4 as stated fails: with a record \<open>p1\<close> in the existing collection and a new result for
  \<open>p1\<close>, the merged collection holds both, the stale one first.
\<close>

theorem combined_records_counterexample:
  "combined_records (JArr [JObj [(''post_id'', JStr ''p1''), (''conversation'', JArr [])]])
     [JObj [(''post_id'', JStr ''p1''), (''conversation'', JArr [JStr ''new''])]]
   = Inr [JObj [(''post_id'', JStr ''p1''), (''conversation'', JArr [])],
          JObj [(''post_id'', JStr ''p1''), (''conversation'', JArr [JStr ''new''])]] \<and>
   occurrences (JStr ''p1'')
     [JObj [(''post_id'', JStr ''p1''), (''conversation'', JArr [])],
      JObj [(''post_id'', JStr ''p1''), (''conversation'', JArr [JStr ''new''])]] = 2"
  by (simp add: combined_records_def occurrences_def record_id_def)

subsection \<open>Checkpoint writes\<close>

lemma temp_path_neq: "output_path @ ''.temp'' \<noteq> (output_path :: string)"
  by (metis append_self_conv list.distinct(1))















text \<open>
  A flush of stage 2 that is interrupted while the temporary file is written leaves a
  part of the new text there, and the next run loads that file in place of the intact
  output file.
\<close>

lemma load_after_interrupted_flush:
  "load_processed_records json_loads
     [''path/to/output.json'' \<mapsto> ''[{\"post_id\": \"p1\"}]'',
      ''path/to/output.json.temp'' \<mapsto> ''['']
     ''path/to/output.json''
   = (JArr [], {})"
  by (simp add: load_processed_records_def json_eval str_eval readlines_def rstrip_comma_def)

subsection \<open>Loading the previous output (stage 2)\<close>

lemma id_set_Nil: "id_set [] = {}"
  by (simp add: id_set_def)

lemma id_set_Cons: "record_id r = Inr k \<Longrightarrow> id_set (r # rs) = insert k (id_set rs)"
  by (auto simp: id_set_def)

lemma collect_ids_wf:
  "\<forall>r\<in>set rs. \<exists>k. record_id r = Inr k \<Longrightarrow> collect_ids rs = Inr (id_set rs)"
proof (induction rs)
  case Nil
  show ?case by (simp add: id_set_Nil)
next
  case (Cons r rs)
  then obtain k where k: "record_id r = Inr k" by auto
  from Cons have "collect_ids rs = Inr (id_set rs)" by simp
  with k show ?case by (simp add: id_set_Cons)
qed

lemma collect_ids_raises:
  "\<exists>r\<in>set rs. \<forall>k. record_id r \<noteq> Inr k \<Longrightarrow> \<exists>e. collect_ids rs = Inl e"
proof (induction rs)
  case Nil
  then show ?case by simp
next
  case (Cons r rs)
  show ?case
  proof (cases "record_id r")
    case (Inl e)
    then show ?thesis by simp
  next
    case (Inr k)
    with Cons.prems have "\<exists>r\<in>set rs. \<forall>k. record_id r \<noteq> Inr k" by auto
    from Cons.IH [OF this] obtain e where "collect_ids rs = Inl e" ..
    with Inr show ?thesis by simp
  qed
qed

lemma line_records_Nil: "line_records loads [] = []"
  by (simp add: line_records_def List.map_filter_simps)

lemma line_records_Cons:
  "line_records loads (l # ls) =
     (let line = rstrip_comma (strip l) in
      if line = [] \<or> line = ''['' \<or> line = '']'' then line_records loads ls
      else case loads line of None \<Rightarrow> line_records loads ls
           | Some r \<Rightarrow> r # line_records loads ls)"
  by (simp add: line_records_def List.map_filter_simps Let_def split: option.splits)

lemma load_lines_wf:
  "\<forall>r\<in>set (line_records loads ls). \<exists>k. record_id r = Inr k \<Longrightarrow>
   load_lines loads ls recs ids
     = (recs @ line_records loads ls, ids \<union> id_set (line_records loads ls))"
proof (induction ls arbitrary: recs ids)
  case Nil
  show ?case by (simp add: line_records_Nil id_set_Nil)
next
  case (Cons l ls)
  let ?line = "rstrip_comma (strip l)"
  show ?case
  proof (cases "?line = [] \<or> ?line = ''['' \<or> ?line = '']''")
    case True
    then have e: "line_records loads (l # ls) = line_records loads ls"
      by (simp add: line_records_Cons)
    with Cons.prems have "\<forall>r\<in>set (line_records loads ls). \<exists>k. record_id r = Inr k" by simp
    from Cons.IH [OF this, of recs ids] True e show ?thesis by simp
  next
    case False
    show ?thesis
    proof (cases "loads ?line")
      case None
      with False have e: "line_records loads (l # ls) = line_records loads ls"
        by (simp add: line_records_Cons)
      with Cons.prems have "\<forall>r\<in>set (line_records loads ls). \<exists>k. record_id r = Inr k" by simp
      from Cons.IH [OF this, of recs ids] False None e show ?thesis by simp
    next
      case (Some rcd)
      with False have e: "line_records loads (l # ls) = rcd # line_records loads ls"
        by (simp add: line_records_Cons)
      with Cons.prems obtain k where k: "record_id rcd = Inr k" by auto
      from e Cons.prems have "\<forall>r\<in>set (line_records loads ls). \<exists>k. record_id r = Inr k" by simp
      from Cons.IH [OF this, of "recs @ [rcd]" "insert k ids"] False Some e k
      show ?thesis by (simp add: id_set_Cons)
    qed
  qed
qed

text \<open>
  C9. When the file \<open>output_path @ ''.temp''\<close> exists with the text \<open>t\<close>,
  \<open>load_processed_records\<close> returns the records and the identifiers of that text. When the
  text starts with a bracket and parses to a list, the records are that list, and the
  identifiers are the identifiers of its records (none when a record has no
  identifier). When the text does not start with a bracket or does not parse, and the
  records of its lines all have identifiers, the records are the records of its lines
  and the identifiers are theirs. The main output file has no part in the result: the
  result is the same when that file is replaced by any other content or removed.
\<close>

theorem load_processed_records_prefers_temp:
  "fs (output_path @ ''.temp'') = Some t \<Longrightarrow>
   (startswith (strip t) ''['' \<and> loads (strip t) = Some (JArr rs) \<longrightarrow>
      fst (load_processed_records loads fs output_path) = JArr rs \<and>
      snd (load_processed_records loads fs output_path)
        = (if \<forall>r\<in>set rs. \<exists>k. record_id r = Inr k then id_set rs else {})) \<and>
   ((\<not> startswith (strip t) ''['' \<or> loads (strip t) = None) \<and>
    (\<forall>r\<in>set (line_records loads (readlines t)). \<exists>k. record_id r = Inr k) \<longrightarrow>
      load_processed_records loads fs output_path
        = (JArr (line_records loads (readlines t)),
           id_set (line_records loads (readlines t)))) \<and>
   load_processed_records loads fs output_path
     = load_processed_records loads (fs(output_path := main_file)) output_path"
proof (intro conjI impI)
  assume t: "fs (output_path @ ''.temp'') = Some t"
  show "load_processed_records loads fs output_path
     = load_processed_records loads (fs(output_path := main_file)) output_path"
    using t by (simp add: load_processed_records_def temp_path_neq Let_def)
  {
    assume a: "startswith (strip t) ''['' \<and> loads (strip t) = Some (JArr rs)"
    show "fst (load_processed_records loads fs output_path) = JArr rs"
      using t a by (simp add: load_processed_records_def Let_def split: sum.splits)
    show "snd (load_processed_records loads fs output_path)
        = (if \<forall>r\<in>set rs. \<exists>k. record_id r = Inr k then id_set rs else {})"
    proof (cases "\<forall>r\<in>set rs. \<exists>k. record_id r = Inr k")
      case True
      from collect_ids_wf [OF True] t a True show ?thesis
        by (simp add: load_processed_records_def Let_def)
    next
      case False
      then have "\<exists>r\<in>set rs. \<forall>k. record_id r \<noteq> Inr k" by simp
      from collect_ids_raises [OF this] obtain e where "collect_ids rs = Inl e" ..
      with t a have "snd (load_processed_records loads fs output_path) = {}"
        by (simp add: load_processed_records_def Let_def)
      then show ?thesis
        by (simp only: False if_False)
    qed
  }
  {
    assume b: "(\<not> startswith (strip t) ''['' \<or> loads (strip t) = None) \<and>
      (\<forall>r\<in>set (line_records loads (readlines t)). \<exists>k. record_id r = Inr k)"
    then have n: "(if startswith (strip t) ''['' then loads (strip t) else None) = None"
      by auto
    from b have "load_lines loads (readlines t) [] {}
        = ([] @ line_records loads (readlines t), {} \<union> id_set (line_records loads (readlines t)))"
      using load_lines_wf [of loads "readlines t" "[]" "{}"] by blast
    with t n show "load_processed_records loads fs output_path
        = (JArr (line_records loads (readlines t)),
           id_set (line_records loads (readlines t)))"
      by (simp add: load_processed_records_def Let_def)
  }
qed


text \<open>
  A temporary file in either format, beside a main output file with another record.
\<close>

lemma ex_temp_array:
  "strip ''[{\"post_id\": \"p1\"}]'' = ''[{\"post_id\": \"p1\"}]'' \<and>
   startswith ''[{\"post_id\": \"p1\"}]'' ''['' \<and>
   json_loads ''[{\"post_id\": \"p1\"}]'' = Some (JArr [JObj [(''post_id'', JStr ''p1'')]])"
  by (simp add: json_eval str_eval)

lemma ex_temp_lines:
  "strip (''{\"post_id\": \"p1\"},'' @ [CHR 0x0A] @ ''{\"post_id\": \"p3\"}'' @ [CHR 0x0A])
     = ''{\"post_id\": \"p1\"},'' @ [CHR 0x0A] @ ''{\"post_id\": \"p3\"}'' \<and>
   \<not> startswith (''{\"post_id\": \"p1\"},'' @ [CHR 0x0A] @ ''{\"post_id\": \"p3\"}'') ''['' \<and>
   readlines (''{\"post_id\": \"p1\"},'' @ [CHR 0x0A] @ ''{\"post_id\": \"p3\"}'' @ [CHR 0x0A])
     = [''{\"post_id\": \"p1\"},'' @ [CHR 0x0A], ''{\"post_id\": \"p3\"}'' @ [CHR 0x0A]]"
  by (simp add: str_eval startswith_def readlines_def)

lemma ex_line_records:
  "line_records json_loads [''{\"post_id\": \"p1\"},'' @ [CHR 0x0A], ''{\"post_id\": \"p3\"}'' @ [CHR 0x0A]]
     = [JObj [(''post_id'', JStr ''p1'')], JObj [(''post_id'', JStr ''p3'')]]"
  by (simp add: line_records_Cons line_records_Nil str_eval rstrip_comma_def json_eval)

lemma ex_ids:
  "record_id (JObj [(''post_id'', JStr ''p1'')]) = Inr (JStr ''p1'') \<and>
   record_id (JObj [(''post_id'', JStr ''p3'')]) = Inr (JStr ''p3'')"
  by (simp add: record_id_def)

theorem load_processed_records_prefers_temp_witness:
  "load_processed_records json_loads
     [''out.json'' \<mapsto> ''[{\"post_id\": \"p2\"}]'', ''out.json.temp'' \<mapsto> ''[{\"post_id\": \"p1\"}]'']
     ''out.json''
   = (JArr [JObj [(''post_id'', JStr ''p1'')]], {JStr ''p1''}) \<and>
   load_processed_records json_loads
     [''out.json'' \<mapsto> ''[{\"post_id\": \"p2\"}]'',
      ''out.json.temp'' \<mapsto> ''{\"post_id\": \"p1\"},'' @ [CHR 0x0A] @ ''{\"post_id\": \"p3\"}'' @ [CHR 0x0A]]
     ''out.json''
   = (JArr [JObj [(''post_id'', JStr ''p1'')], JObj [(''post_id'', JStr ''p3'')]],
      {JStr ''p1'', JStr ''p3''})"
proof (rule conjI)
  show "load_processed_records json_loads
     [''out.json'' \<mapsto> ''[{\"post_id\": \"p2\"}]'', ''out.json.temp'' \<mapsto> ''[{\"post_id\": \"p1\"}]'']
     ''out.json''
   = (JArr [JObj [(''post_id'', JStr ''p1'')]], {JStr ''p1''})"
    using load_processed_records_prefers_temp
      [of "[''out.json'' \<mapsto> ''[{\"post_id\": \"p2\"}]'', ''out.json.temp'' \<mapsto> ''[{\"post_id\": \"p1\"}]'']"
          "''out.json''" "''[{\"post_id\": \"p1\"}]''" json_loads
          "[JObj [(''post_id'', JStr ''p1'')]]" None]
    by (simp add: ex_temp_array ex_ids id_set_Cons id_set_Nil prod_eq_iff)
  show "load_processed_records json_loads
     [''out.json'' \<mapsto> ''[{\"post_id\": \"p2\"}]'',
      ''out.json.temp'' \<mapsto> ''{\"post_id\": \"p1\"},'' @ [CHR 0x0A] @ ''{\"post_id\": \"p3\"}'' @ [CHR 0x0A]]
     ''out.json''
   = (JArr [JObj [(''post_id'', JStr ''p1'')], JObj [(''post_id'', JStr ''p3'')]],
      {JStr ''p1'', JStr ''p3''})"
    using load_processed_records_prefers_temp
      [of "[''out.json'' \<mapsto> ''[{\"post_id\": \"p2\"}]'',
            ''out.json.temp'' \<mapsto> ''{\"post_id\": \"p1\"},'' @ [CHR 0x0A] @ ''{\"post_id\": \"p3\"}'' @ [CHR 0x0A]]"
          "''out.json''"
          "''{\"post_id\": \"p1\"},'' @ [CHR 0x0A] @ ''{\"post_id\": \"p3\"}'' @ [CHR 0x0A]"
          json_loads "[]" None]
      ex_temp_lines
    by (simp add: ex_line_records ex_ids id_set_Cons id_set_Nil del: append.simps append_Cons append_Nil)
qed

subsection \<open>The pending records\<close>












text \<open>
  What stage 2 adds to its output carries the identifier of the input record it was made
  from, so the records that the stage saves have identifiers when the loaded ones have.
\<close>

lemma igc_result_id:
  "inference_generate_conversation loads gateway post_id info rc calls = (Inr result, calls') \<Longrightarrow>
   \<exists>conv. result = JObj [(''post_id'', post_id), (''conversation'', conv)]"
proof (induction "MAX_RETRIES - rc" arbitrary: rc calls)
  case 0
  then have nlt: "\<not> rc < MAX_RETRIES" by simp
  show ?case
  proof (cases "py_len info")
    case (Inl e)
    with 0 show ?thesis by (simp add: igc_len_error)
  next
    case (Inr n)
    show ?thesis
    proof (cases "attempt loads (gateway calls (prompt_payload n info))")
      case (Inl e)
      with Inr nlt 0 show ?thesis by (simp add: igc_exhausted)
    next
      case (Inr conv)
      with \<open>py_len info = Inr n\<close> 0 show ?thesis by (auto simp: igc_success)
    qed
  qed
next
  case (Suc d)
  then have lt: "rc < MAX_RETRIES" and d: "d = MAX_RETRIES - Suc rc" by simp_all
  show ?case
  proof (cases "py_len info")
    case (Inl e)
    with Suc.prems show ?thesis by (simp add: igc_len_error)
  next
    case (Inr n)
    show ?thesis
    proof (cases "attempt loads (gateway calls (prompt_payload n info))")
      case (Inl e)
      from igc_retry [where gateway = gateway and calls = calls, OF Inr Inl lt] Suc.prems
      have "inference_generate_conversation loads gateway post_id info (Suc rc) (Suc calls)
              = (Inr result, calls')" by simp
      from Suc.hyps(1) [OF d this] show ?thesis .
    next
      case (Inr conv)
      with \<open>py_len info = Inr n\<close> Suc.prems show ?thesis by (auto simp: igc_success)
    qed
  qed
qed

lemma process_record_keeps_id:
  assumes p: "process_record loads gateway r calls = (Inr (Some result), calls')"
  shows "record_id result = record_id r"
proof -
  from p obtain post_id where g: "getitem r ''post_id'' = Inr post_id"
    by (cases "getitem r ''post_id''") (simp_all add: process_record_def)
  from p g obtain info where i: "getitem r ''info_by_round'' = Inr info"
    by (cases "getitem r ''info_by_round''") (simp_all add: process_record_def)
  obtain res c where e: "inference_generate_conversation loads gateway post_id info 0 calls = (res, c)"
    by (cases "inference_generate_conversation loads gateway post_id info 0 calls")
  from p g i e have "res = Inr result"
    by (cases res) (simp_all add: process_record_def)
  with e igc_result_id obtain conv
    where "result = JObj [(''post_id'', post_id), (''conversation'', conv)]" by blast
  with g show ?thesis by (simp add: record_id_def)
qed









subsection \<open>A reply without rounds (stage 1)\<close>

lemma inference_with_deepseek_frame:
  "inference_with_deepseek gateway n_clients st content = (r, st1) \<Longrightarrow>
   outf st1 = outf st \<and> processed_ids st1 = processed_ids st"
proof (cases "client_index st < n_clients")
  case False
  assume "inference_with_deepseek gateway n_clients st content = (r, st1)"
  with False have "st1 = st" by (simp add: inference_with_deepseek_def get_client_def)
  then show ?thesis by simp
next
  case True
  assume a: "inference_with_deepseek gateway n_clients st content = (r, st1)"
  let ?st = "st\<lparr>client_index := (client_index st + 1) mod n_clients\<rparr>"
  from True a have "st1 = ?st\<lparr>calls_made := Suc (calls_made ?st)\<rparr>"
    by (cases "gateway (client_index st) (calls_made ?st) content")
       (simp_all add: inference_with_deepseek_def get_client_def)
  then show ?thesis by simp
qed

text \<open>
  C10. When the call of the service succeeds and the parsed reply has no \<open>rounds\<close> or no
  \<open>info_by_round\<close> value (\<open>extract_round_info\<close> returns \<^verbatim>\<open>None\<close> for one of them), the worker
  returns with the output file and the set of processed identifiers as they were: no
  line is written and the identifier is not added, so the record is pending again in
  the next run.
\<close>

theorem worker_incomplete_reply:
  "get_default post ''content'' (JStr []) = Inr content \<and>
   inference_with_deepseek gateway n_clients st content = (Inr out, st1) \<and>
   extract_round_info loads out = Inr (rounds, info) \<and>
   (rounds = JNull \<or> info = JNull)
   \<longrightarrow> outf (worker loads dumps gateway n_clients st post) = outf st \<and>
       processed_ids (worker loads dumps gateway n_clients st post) = processed_ids st"
proof
  assume a: "get_default post ''content'' (JStr []) = Inr content \<and>
   inference_with_deepseek gateway n_clients st content = (Inr out, st1) \<and>
   extract_round_info loads out = Inr (rounds, info) \<and>
   (rounds = JNull \<or> info = JNull)"
  have c: "get_default post ''content'' (JStr []) = Inr content"
    by (rule conjunct1 [OF a])
  have i: "inference_with_deepseek gateway n_clients st content = (Inr out, st1)"
    by (rule conjunct1 [OF conjunct2 [OF a]])
  have x: "extract_round_info loads out = Inr (rounds, info)"
    by (rule conjunct1 [OF conjunct2 [OF conjunct2 [OF a]]])
  have n: "rounds = JNull \<or> info = JNull"
    by (rule conjunct2 [OF conjunct2 [OF conjunct2 [OF a]]])
  have f: "outf st1 = outf st \<and> processed_ids st1 = processed_ids st"
    using i by (rule inference_with_deepseek_frame)
  have "worker loads dumps gateway n_clients st post = st \<or>
        worker loads dumps gateway n_clients st post = st1"
  proof (cases "get post ''post_id''")
    case (Inl e)
    then show ?thesis by (simp add: worker_def)
  next
    case (Inr pid)
    note pid = this
    show ?thesis
    proof (cases "hash_key pid")
      case (Inl e)
      with pid show ?thesis by (simp add: worker_def)
    next
      case (Inr k)
      show ?thesis
      proof (cases "k \<in> processed_ids st")
        case True
        with pid Inr show ?thesis by (simp add: worker_def)
      next
        case False
        with pid Inr c i x n have "worker loads dumps gateway n_clients st post = st1"
          by (simp add: worker_def)
        then show ?thesis ..
      qed
    qed
  qed
  then show "outf (worker loads dumps gateway n_clients st post) = outf st \<and>
       processed_ids (worker loads dumps gateway n_clients st post) = processed_ids st"
  proof
    assume "worker loads dumps gateway n_clients st post = st"
    then show ?thesis by (simp only: simp_thms)
  next
    assume "worker loads dumps gateway n_clients st post = st1"
    then show ?thesis by (simp only: f simp_thms)
  qed
qed

theorem worker_incomplete_reply_witness:
  "outf (worker json_loads (json_dumps None) incomplete_gateway 2
           \<lparr>outf = [], processed_ids = {}, client_index = 0, calls_made = 0\<rparr>
           (JObj [(''post_id'', JStr ''p1''), (''content'', JStr ''I feel anxious'')])) = [] \<and>
   processed_ids (worker json_loads (json_dumps None) incomplete_gateway 2
           \<lparr>outf = [], processed_ids = {}, client_index = 0, calls_made = 0\<rparr>
           (JObj [(''post_id'', JStr ''p1''), (''content'', JStr ''I feel anxious'')])) = {} \<and>
   calls_made (worker json_loads (json_dumps None) incomplete_gateway 2
           \<lparr>outf = [], processed_ids = {}, client_index = 0, calls_made = 0\<rparr>
           (JObj [(''post_id'', JStr ''p1''), (''content'', JStr ''I feel anxious'')])) = 1"
proof -
  have e: "extract_round_info json_loads ''{\"rounds\": 1}'' = Inr (JInt 1, JNull)"
    by (simp add: extract_round_info_def loads_text_def json_eval str_eval)
  have i: "inference_with_deepseek incomplete_gateway 2
             \<lparr>outf = [], processed_ids = {}, client_index = 0, calls_made = 0\<rparr>
             (JStr ''I feel anxious'')
           = (Inr ''{\"rounds\": 1}'',
              \<lparr>outf = [], processed_ids = {}, client_index = 1, calls_made = 1\<rparr>)"
    by (simp add: inference_with_deepseek_def get_client_def incomplete_gateway_def)
  have w: "worker json_loads (json_dumps None) incomplete_gateway 2
           \<lparr>outf = [], processed_ids = {}, client_index = 0, calls_made = 0\<rparr>
           (JObj [(''post_id'', JStr ''p1''), (''content'', JStr ''I feel anxious'')])
          = \<lparr>outf = [], processed_ids = {}, client_index = 1, calls_made = 1\<rparr>"
    by (simp add: worker_def e i)
  show ?thesis
    using worker_incomplete_reply
      [of "JObj [(''post_id'', JStr ''p1''), (''content'', JStr ''I feel anxious'')]"
          "JStr ''I feel anxious''" incomplete_gateway 2
          "\<lparr>outf = [], processed_ids = {}, client_index = 0, calls_made = 0\<rparr>"
          "''{\"rounds\": 1}''"
          "\<lparr>outf = [], processed_ids = {}, client_index = 1, calls_made = 1\<rparr>"
          json_loads "JInt 1" JNull "json_dumps None"]
      e i
    by (simp add: w)
qed

subsection \<open>The parsing of the replies\<close>

lemma loads_content_strip_fences:
  "loads_content loads raw =
     (case loads (strip_fences raw) of Some v \<Rightarrow> Inr v | None \<Rightarrow> Inl JSONDecodeError)"
  by (simp add: loads_content_def strip_fences_def Let_def)

lemma loads_text_strip_fences:
  "loads_text loads raw =
     (case loads (strip_fences raw) of
        Some v \<Rightarrow> Inr v
      | None \<Rightarrow>
          (case JSON_OBJ_RE_search (strip_fences raw) of
             Some m \<Rightarrow> (case loads m of None \<Rightarrow> Inl JSONDecodeError | Some v \<Rightarrow> Inr v)
           | None \<Rightarrow> Inr (JObj [])))"
  by (simp add: loads_text_def strip_fences_def Let_def cong: option.case_cong)

text \<open>
  C5, as the code has it. The stages do not share one parser. Stages 1 and 2 strip the
  reply in the same way (white space, a leading fence with \<open>json\<close>, a trailing fence) and
  parse the rest strictly; when this parse succeeds, both use its value, and it is the
  value of the specification's parser when the raw text does not parse. When it fails,
  stage 2 raises JSONDecodeError without looking for an embedded object, and stage 1
  parses the text from the first opening to the last closing brace, or takes the empty
  object when there is none. Stage 4 removes a fence line by line and returns its reject
  result when the strict parse of the rest fails.
\<close>

theorem stage_parsers:
  "(loads (strip_fences raw) = Some v \<longrightarrow>
      loads_text loads raw = Inr v \<and> loads_content loads raw = Inr v \<and>
      (loads raw = None \<longrightarrow> spec_lenient_parse loads raw = Some v)) \<and>
   (loads (strip_fences raw) = None \<longrightarrow>
      loads_content loads raw = Inl JSONDecodeError \<and>
      loads_text loads raw =
        (case JSON_OBJ_RE_search (strip_fences raw) of
           Some m \<Rightarrow> (case loads m of None \<Rightarrow> Inl JSONDecodeError | Some d \<Rightarrow> Inr d)
         | None \<Rightarrow> Inr (JObj []))) \<and>
   (loads (unfence_lines raw) = None \<longrightarrow>
      review_reply str_exn loads raw = reject str_exn JSONDecodeError (unfence_lines raw))"
  by (simp add: loads_content_strip_fences loads_text_strip_fences spec_lenient_parse_def
        review_reply_def Let_def)

lemma fenced_one_line:
  "strip_fences (fence_json @ '' {\"conversation\": []} '' @ fence) = ''{\"conversation\": []}''"
  by (simp add: strip_fences_def str_eval startswith_def)

lemma fenced_one_line_lines:
  "unfence_lines (fence_json @ '' {\"conversation\": []} '' @ fence) = []"
  by (simp add: unfence_lines_def str_eval startswith_def splitlines_def is_linebreak_def)

lemma loads_fenced_one_line:
  "json_loads ''{\"conversation\": []}'' = Some (JObj [(''conversation'', JArr [])])"
  by (simp add: json_eval)

lemma loads_fenced_raw:
  "json_loads (fence_json @ '' {\"conversation\": []} '' @ fence) = None"
  by (simp add: json_eval fence_json_def fence_def)

lemma loads_empty: "json_loads [] = None"
  by (simp add: json_eval)

theorem stage_parsers_witness:
  "loads_text json_loads (fence_json @ '' {\"conversation\": []} '' @ fence)
     = Inr (JObj [(''conversation'', JArr [])]) \<and>
   loads_content json_loads (fence_json @ '' {\"conversation\": []} '' @ fence)
     = Inr (JObj [(''conversation'', JArr [])]) \<and>
   spec_lenient_parse json_loads (fence_json @ '' {\"conversation\": []} '' @ fence)
     = Some (JObj [(''conversation'', JArr [])]) \<and>
   review_reply exn_name json_loads (fence_json @ '' {\"conversation\": []} '' @ fence)
     = reject exn_name JSONDecodeError []"
  using stage_parsers [of json_loads "fence_json @ '' {\"conversation\": []} '' @ fence"
           "JObj [(''conversation'', JArr [])]" exn_name]
  by (simp only: fenced_one_line fenced_one_line_lines loads_fenced_one_line loads_fenced_raw
        loads_empty simp_thms)

lemma sure_loads: "json_loads ''Sure: {\"conversation\": []}'' = None"
  by (simp add: json_eval)

lemma sure_strip_fences:
  "strip_fences ''Sure: {\"conversation\": []}'' = ''Sure: {\"conversation\": []}''"
  by (simp add: strip_fences_def str_eval startswith_def)

lemma sure_search:
  "JSON_OBJ_RE_search ''Sure: {\"conversation\": []}'' = Some ''{\"conversation\": []}''"
  by (simp add: JSON_OBJ_RE_search_def)

lemma sure_unfence_lines:
  "unfence_lines ''Sure: {\"conversation\": []}'' = ''Sure: {\"conversation\": []}''"
  by (simp add: unfence_lines_def str_eval startswith_def)

lemma no_object_loads: "json_loads ''no object here'' = None"
  by (simp add: json_eval)

lemma no_object_strip_fences: "strip_fences ''no object here'' = ''no object here''"
  by (simp add: strip_fences_def str_eval startswith_def)

lemma no_object_search: "JSON_OBJ_RE_search ''no object here'' = None"
  by (simp add: JSON_OBJ_RE_search_def)

text \<open>
  C5 as stated fails. On a reply with text before the object the specification's parser
  finds the embedded object, while stage 2 raises and stage 4 rejects; on a reply without
  any object the specification's parser rejects, while stage 1 goes on with an empty
  object.
\<close>

theorem stage_parsers_counterexample:
  "spec_lenient_parse json_loads ''Sure: {\"conversation\": []}''
     = Some (JObj [(''conversation'', JArr [])]) \<and>
   loads_content json_loads ''Sure: {\"conversation\": []}'' = Inl JSONDecodeError \<and>
   review_reply exn_name json_loads ''Sure: {\"conversation\": []}''
     = reject exn_name JSONDecodeError ''Sure: {\"conversation\": []}'' \<and>
   spec_lenient_parse json_loads ''no object here'' = None \<and>
   loads_text json_loads ''no object here'' = Inr (JObj [])"
proof (intro conjI)
  show "spec_lenient_parse json_loads ''Sure: {\"conversation\": []}''
     = Some (JObj [(''conversation'', JArr [])])"
    by (simp only: spec_lenient_parse_def sure_loads sure_strip_fences sure_search
          loads_fenced_one_line option.case)
  show "loads_content json_loads ''Sure: {\"conversation\": []}'' = Inl JSONDecodeError"
    by (simp only: loads_content_strip_fences sure_loads sure_strip_fences option.case)
  show "review_reply exn_name json_loads ''Sure: {\"conversation\": []}''
     = reject exn_name JSONDecodeError ''Sure: {\"conversation\": []}''"
    by (simp only: review_reply_def Let_def sure_unfence_lines sure_loads option.case)
  show "spec_lenient_parse json_loads ''no object here'' = None"
    by (simp only: spec_lenient_parse_def no_object_loads no_object_strip_fences
          no_object_search option.case)
  show "loads_text json_loads ''no object here'' = Inr (JObj [])"
    by (simp only: loads_text_strip_fences no_object_loads no_object_strip_fences
          no_object_search option.case)
qed

subsection \<open>A reply that is a list (stage 4)\<close>

text \<open>
  C6 fails on the code. The check \<^verbatim>\<open>all(k in result for k in (...))\<close> also holds for a JSON
  list that contains the three key names: \<open>review_reply\<close> then returns the list, not a
  reject result, and the assignment \<^verbatim>\<open>result["post_id"] = post_id\<close> of \<^verbatim>\<open>main\<close> raises
  TypeError, so the stage produces no output.
\<close>

theorem filter_stage_list_reply:
  "review_reply exn_name json_loads ''[\"keep\", \"issues\", \"reason\"]''
     = JArr [JStr ''keep'', JStr ''issues'', JStr ''reason''] \<and>
   filter_posts exn_name json_loads (json_dumps None) key_list_gateway 1 (0, 0)
     [JObj [(''post_id'', JStr ''p1''), (''conversation'', JArr [])]] = Inl TypeError"
proof -
  have r: "review_reply exn_name json_loads ''[\"keep\", \"issues\", \"reason\"]''
     = JArr [JStr ''keep'', JStr ''issues'', JStr ''reason'']"
    by (simp add: review_reply_def unfence_lines_def json_eval str_eval)
  show ?thesis
    by (simp add: r inference_with_deepseek_v3_def key_list_gateway_def)
qed

subsection \<open>Two workers in \<^verbatim>\<open>get_client\<close> (stage 1)\<close>

text \<open>
  C7 fails on the code of stage 1, whose \<^verbatim>\<open>get_client\<close> does not take the lock. With three
  clients and two workers, in the first schedule the second worker runs between the reads
  and the write of the first: both select client 0 and the index ends at 1. In the second
  schedule the calls do not overlap: the workers select clients 0 and 1 and the index
  ends at 2.
\<close>

theorem unlocked_rotation_interleaving:
  "run_threads 3 (0, [new_thread, new_thread]) [0, 0, 1, 1, 1, 0]
     = (1, [\<lparr>pc = 3, selected = Some 0, next_index = 1\<rparr>,
            \<lparr>pc = 3, selected = Some 0, next_index = 1\<rparr>]) \<and>
   run_threads 3 (0, [new_thread, new_thread]) [0, 0, 0, 1, 1, 1]
     = (2, [\<lparr>pc = 3, selected = Some 0, next_index = 1\<rparr>,
            \<lparr>pc = 3, selected = Some 1, next_index = 2\<rparr>])"
  by (simp add: run_threads_def thread_step_def new_thread_def)

subsection \<open>The turns of stage 3\<close>

lemma update_turn_cases:
  assumes "update_turn posts i j reply think = Inr posts'"
  obtains kvs convs t where
    "i < length posts" "posts ! i = JObj kvs" "map_of kvs ''conversation'' = Some (JArr convs)"
    "j < length convs" "convs ! j = JObj t"
    "posts' = posts[i := JObj (AList.update ''conversation''
                (JArr (convs[j := JObj (AList.update ''counselor_think'' think
                                        (AList.update ''counselor_content'' reply t))])) kvs)]"
proof -
  from assms have i: "i < length posts"
    by (auto simp: update_turn_def split: if_splits)
  from assms i obtain kvs where p: "posts ! i = JObj kvs"
    by (cases "posts ! i") (auto simp: update_turn_def)
  from assms i p obtain c where c: "map_of kvs ''conversation'' = Some c"
    by (cases "map_of kvs ''conversation''") (auto simp: update_turn_def)
  from assms i p c obtain convs where cs: "c = JArr convs"
    by (cases c) (auto simp: update_turn_def split: if_splits)
  from assms i p c cs have j: "j < length convs"
    by (auto simp: update_turn_def split: if_splits)
  from assms i p c cs j obtain t where t: "convs ! j = JObj t"
    by (cases "convs ! j") (auto simp: update_turn_def)
  from assms i p c cs j t have
    "posts' = posts[i := JObj (AList.update ''conversation''
                (JArr (convs[j := JObj (AList.update ''counselor_think'' think
                                        (AList.update ''counselor_content'' reply t))])) kvs)]"
    by (auto simp: update_turn_def)
  with i p c cs j t that show thesis by blast
qed

lemma only_replies_changed_refl: "only_replies_changed D posts posts"
  by (simp add: only_replies_changed_def)

lemma only_replies_changed_trans:
  assumes "only_replies_changed D1 a b" and "only_replies_changed D2 b c"
  shows "only_replies_changed (D1 \<union> D2) a c"
  unfolding only_replies_changed_def
proof (intro conjI allI impI)
  show "length c = length a"
    using assms by (simp add: only_replies_changed_def)
next
  fix i j show "(turn_at c i j = None) = (turn_at a i j = None)"
    using assms by (simp add: only_replies_changed_def)
next
  fix i j t t' k
  assume t: "turn_at a i j = Some t" and t': "turn_at c i j = Some t'"
    and k: "k \<noteq> ''counselor_content''" "k \<noteq> ''counselor_think''"
  from assms(1) t obtain u where u: "turn_at b i j = Some u"
    by (cases "turn_at b i j") (auto simp: only_replies_changed_def)
  from assms(1) t u k have "get u k = get t k"
    unfolding only_replies_changed_def by blast
  moreover from assms(2) u t' k have "get t' k = get u k"
    unfolding only_replies_changed_def by blast
  ultimately show "get t' k = get t k" by simp
next
  fix i j t t'
  assume t: "turn_at a i j = Some t" and t': "turn_at c i j = Some t'"
    and d: "(i, j) \<notin> D1 \<union> D2"
  from assms(1) t obtain u where u: "turn_at b i j = Some u"
    by (cases "turn_at b i j") (auto simp: only_replies_changed_def)
  from assms(1) t u d have "u = t"
    unfolding only_replies_changed_def by blast
  moreover from assms(2) u t' d have "t' = u"
    unfolding only_replies_changed_def by blast
  ultimately show "t' = t" by simp
next
  fix i k
  assume i: "i < length a" and k: "k \<noteq> ''conversation''"
  from assms(1) have l: "length b = length a" by (simp add: only_replies_changed_def)
  from assms(1) i k have "get (b ! i) k = get (a ! i) k"
    unfolding only_replies_changed_def by blast
  moreover from assms(2) i k l have "get (c ! i) k = get (b ! i) k"
    unfolding only_replies_changed_def by simp
  ultimately show "get (c ! i) k = get (a ! i) k" by simp
qed

lemma turn_at_update_turn:
  assumes "update_turn posts i j reply think = Inr posts'"
  shows "\<exists>t. turn_at posts i j = Some (JObj t) \<and>
           (\<forall>i' j'. turn_at posts' i' j' =
              (if i' = i \<and> j' = j
               then Some (JObj (AList.update ''counselor_think'' think
                                 (AList.update ''counselor_content'' reply t)))
               else turn_at posts i' j'))"
proof -
  from assms obtain kvs convs t where
    i: "i < length posts" and p: "posts ! i = JObj kvs"
    and c: "map_of kvs ''conversation'' = Some (JArr convs)"
    and j: "j < length convs" and t: "convs ! j = JObj t"
    and posts': "posts' = posts[i := JObj (AList.update ''conversation''
                (JArr (convs[j := JObj (AList.update ''counselor_think'' think
                                        (AList.update ''counselor_content'' reply t))])) kvs)]"
    by (rule update_turn_cases)
  have a: "turn_at posts i j = Some (JObj t)"
    using i p c j t by (simp add: turn_at_def)
  have b: "turn_at posts' i' j' =
              (if i' = i \<and> j' = j
               then Some (JObj (AList.update ''counselor_think'' think
                                 (AList.update ''counselor_content'' reply t)))
               else turn_at posts i' j')" for i' j'
  proof (cases "i' = i")
    case False
    then show ?thesis by (simp add: turn_at_def posts')
  next
    case True
    show ?thesis
    proof (cases "j' = j")
      case True
      with \<open>i' = i\<close> i j show ?thesis
        by (simp add: turn_at_def posts' update_conv')
    next
      case False
      with \<open>i' = i\<close> i p c show ?thesis
        by (simp add: turn_at_def posts' update_conv')
    qed
  qed
  from a b show ?thesis by blast
qed

lemma update_turn_other_fields:
  assumes "update_turn posts i j reply think = Inr posts'"
  shows "length posts' = length posts \<and>
         (\<forall>i' k. i' < length posts \<longrightarrow> k \<noteq> ''conversation'' \<longrightarrow>
            get (posts' ! i') k = get (posts ! i') k)"
proof -
  from assms obtain kvs convs t where
    i: "i < length posts" and p: "posts ! i = JObj kvs"
    and posts': "posts' = posts[i := JObj (AList.update ''conversation''
                (JArr (convs[j := JObj (AList.update ''counselor_think'' think
                                        (AList.update ''counselor_content'' reply t))])) kvs)]"
    by (rule update_turn_cases)
  show ?thesis
  proof (intro conjI allI impI)
    show "length posts' = length posts" by (simp add: posts')
  next
    fix i' k assume "i' < length posts" and k: "k \<noteq> ''conversation''"
    then show "get (posts' ! i') k = get (posts ! i') k"
      using p by (cases "i' = i") (simp_all add: posts' update_conv')
  qed
qed

lemma only_replies_changed_update_turn:
  assumes "update_turn posts i j reply think = Inr posts'"
  shows "only_replies_changed {(i, j)} posts posts'"
proof -
  from turn_at_update_turn [OF assms] obtain t where
    a: "turn_at posts i j = Some (JObj t)"
    and b: "\<And>i' j'. turn_at posts' i' j' =
              (if i' = i \<and> j' = j
               then Some (JObj (AList.update ''counselor_think'' think
                                 (AList.update ''counselor_content'' reply t)))
               else turn_at posts i' j')"
    by blast
  from update_turn_other_fields [OF assms] have
    l: "length posts' = length posts"
    and o: "\<And>i' k. i' < length posts \<Longrightarrow> k \<noteq> ''conversation'' \<Longrightarrow>
            get (posts' ! i') k = get (posts ! i') k"
    by blast+
  show ?thesis
    unfolding only_replies_changed_def
  proof (intro conjI allI impI)
    show "length posts' = length posts" by (rule l)
  next
    fix i' j' show "(turn_at posts' i' j' = None) = (turn_at posts i' j' = None)"
      using a by (simp add: b)
  next
    fix i' j' u u' k
    assume u: "turn_at posts i' j' = Some u" and u': "turn_at posts' i' j' = Some u'"
      and k: "k \<noteq> ''counselor_content''" "k \<noteq> ''counselor_think''"
    show "get u' k = get u k"
    proof (cases "i' = i \<and> j' = j")
      case True
      with a u have "u = JObj t" by simp
      moreover from True u' have
        "u' = JObj (AList.update ''counselor_think'' think
                     (AList.update ''counselor_content'' reply t))"
        by (simp add: b)
      ultimately show ?thesis using k by (simp add: update_conv')
    next
      case False
      with u u' show ?thesis by (simp add: b)
    qed
  next
    fix i' j' u u'
    assume u: "turn_at posts i' j' = Some u" and u': "turn_at posts' i' j' = Some u'"
      and d: "(i', j') \<notin> {(i, j)}"
    then show "u' = u" by (auto simp: b split: if_splits)
  next
    fix i' k assume "i' < length posts" "k \<noteq> ''conversation''"
    then show "get (posts' ! i') k = get (posts ! i') k" by (rule o)
  qed
qed

lemma only_replies_changed_mono:
  assumes "only_replies_changed D a b" and "D \<subseteq> D'"
  shows "only_replies_changed D' a b"
  unfolding only_replies_changed_def
proof (intro conjI allI impI)
  show "length b = length a"
    using assms(1) by (simp add: only_replies_changed_def)
next
  fix i j show "(turn_at b i j = None) = (turn_at a i j = None)"
    using assms(1) by (simp add: only_replies_changed_def)
next
  fix i j t t' k
  assume "turn_at a i j = Some t" and "turn_at b i j = Some t'"
    and "k \<noteq> ''counselor_content''" "k \<noteq> ''counselor_think''"
  with assms(1) show "get t' k = get t k"
    unfolding only_replies_changed_def by blast
next
  fix i j t t'
  assume "turn_at a i j = Some t" and "turn_at b i j = Some t'" and "(i, j) \<notin> D'"
  moreover from this assms(2) have "(i, j) \<notin> D" by blast
  ultimately show "t' = t"
    using assms(1) unfolding only_replies_changed_def by blast
next
  fix i k
  assume "i < length a" and "k \<noteq> ''conversation''"
  with assms(1) show "get (b ! i) k = get (a ! i) k"
    unfolding only_replies_changed_def by blast
qed

lemma completed_only_replies_changed:
  "completed dumps output_file finished (posts, n, fs) = Inr (posts', n', fs') \<Longrightarrow>
   only_replies_changed (task_index ` fst ` set finished) posts posts'"
proof (induction finished arbitrary: posts n fs)
  case Nil
  then show ?case by (simp add: only_replies_changed_refl)
next
  case (Cons x finished)
  obtain i j p h outcome where x: "x = ((i, j, p, h), outcome)"
    by (cases x) auto
  show ?case
  proof (cases outcome)
    case (Inl e)
    with Cons.prems x have "completed dumps output_file finished (posts, n, fs) = Inr (posts', n', fs')"
      by simp
    from Cons.IH [OF this] show ?thesis
      by (rule only_replies_changed_mono) auto
  next
    case (Inr rt)
    obtain reply think where rt: "rt = (reply, think)" by (cases rt)
    from Cons.prems x Inr rt obtain posts1 where
      u: "update_turn posts i j reply think = Inr posts1"
      by (cases "update_turn posts i j reply think") auto
    with Cons.prems x Inr rt obtain fs1 where
      "completed dumps output_file finished (posts1, Suc n, fs1) = Inr (posts', n', fs')"
      by auto
    from Cons.IH [OF this]
    have "only_replies_changed (task_index ` fst ` set finished) posts1 posts'" .
    with only_replies_changed_update_turn [OF u]
    have "only_replies_changed ({(i, j)} \<union> task_index ` fst ` set finished) posts posts'"
      by (rule only_replies_changed_trans)
    then show ?thesis
      by (rule only_replies_changed_mono) (auto simp: x task_index_def)
  qed
qed

lemma turn_pending_True:
  "turn_pending t = Inr True \<Longrightarrow>
   \<exists>kvs c. t = JObj kvs \<and> get t ''counselor_content'' = Inr c \<and> \<not> truthy c"
  by (cases t) (auto simp: turn_pending_def split: sum.splits if_splits option.splits)

lemma conv_tasks_pending:
  "conv_tasks i convs j rest = Inr ts \<Longrightarrow> rest = drop j convs \<Longrightarrow>
   \<forall>task\<in>set ts. fst task = i \<and> fst (snd task) < length convs \<and>
      turn_pending (convs ! fst (snd task)) = Inr True"
proof (induction rest arbitrary: j ts)
  case Nil
  then show ?case by simp
next
  case (Cons conv rest)
  from Cons.prems(2) have j: "j < length convs"
    by (metis drop_all list.distinct(1) not_le_imp_less)
  with Cons.prems(2) have c: "conv = convs ! j" and r: "rest = drop (Suc j) convs"
    by (metis Cons_nth_drop_Suc list.inject)+
  from Cons.prems(1) obtain pending where p: "turn_pending conv = Inr pending"
    by (cases "turn_pending conv") auto
  from Cons.prems(1) p obtain t ts' where
    t: "(if pending
         then (case conversation_history (take j convs) of
                 Inl e \<Rightarrow> Inl e
               | Inr h \<Rightarrow>
                   (case getitem conv ''patient'' of
                      Inl e \<Rightarrow> Inl e
                    | Inr p \<Rightarrow> Inr [(i, j, p, h)]))
         else Inr []) = Inr t"
    and ts': "conv_tasks i convs (Suc j) rest = Inr ts'" and ts: "ts = t @ ts'"
    by (auto split: sum.splits)
  from Cons.IH [OF ts' r] have
    ih: "\<forall>task\<in>set ts'. fst task = i \<and> fst (snd task) < length convs \<and>
      turn_pending (convs ! fst (snd task)) = Inr True" .
  have "\<forall>task\<in>set t. fst task = i \<and> fst (snd task) < length convs \<and>
      turn_pending (convs ! fst (snd task)) = Inr True"
    using t p c j by (auto split: if_splits sum.splits)
  with ih ts show ?case by auto
qed

lemma turn_at_Cons_Suc: "turn_at (post # rest) (Suc n) j = turn_at rest n j"
  by (simp add: turn_at_def)

lemma prepare_tasks_pending:
  "prepare_tasks i0 posts = Inr tasks \<Longrightarrow>
   \<forall>task\<in>set tasks. i0 \<le> fst task \<and>
     (\<exists>t c. turn_at posts (fst task - i0) (fst (snd task)) = Some t \<and>
        get t ''counselor_content'' = Inr c \<and> \<not> truthy c)"
proof (induction posts arbitrary: i0 tasks)
  case Nil
  then show ?case by simp
next
  case (Cons post rest)
  from Cons.prems obtain c convs ts others where
    gd: "get_default post ''conversation'' (JArr []) = Inr c"
    and it: "py_iter c = Inr convs"
    and ct: "conv_tasks i0 convs 0 convs = Inr ts"
    and pt: "prepare_tasks (Suc i0) rest = Inr others"
    and tasks: "tasks = ts @ others"
    by (auto split: sum.splits)
  have a: "\<forall>task\<in>set ts. i0 \<le> fst task \<and>
     (\<exists>t c. turn_at (post # rest) (fst task - i0) (fst (snd task)) = Some t \<and>
        get t ''counselor_content'' = Inr c \<and> \<not> truthy c)"
  proof
    fix task assume m: "task \<in> set ts"
    from conv_tasks_pending [OF ct] m have
      i: "fst task = i0" and j: "fst (snd task) < length convs"
      and tp: "turn_pending (convs ! fst (snd task)) = Inr True"
      by auto
    from turn_pending_True [OF tp] obtain kvs cc where
      k: "convs ! fst (snd task) = JObj kvs"
      and g: "get (convs ! fst (snd task)) ''counselor_content'' = Inr cc" and n: "\<not> truthy cc"
      by blast
    have arr: "c = JArr convs"
    proof (cases c)
      case (JArr xs)
      with it show ?thesis by simp
    next
      case (JObj xs)
      with it j k show ?thesis by auto
    next
      case (JStr x)
      with it j k show ?thesis by auto
    qed (use it in simp_all)
    from gd arr j have gi: "getitem post ''conversation'' = Inr (JArr convs)"
      by (cases post) (auto split: option.splits)
    have "turn_at (post # rest) 0 (fst (snd task)) = Some (convs ! fst (snd task))"
      using gi j by (simp add: turn_at_def)
    with i g n show "i0 \<le> fst task \<and>
     (\<exists>t c. turn_at (post # rest) (fst task - i0) (fst (snd task)) = Some t \<and>
        get t ''counselor_content'' = Inr c \<and> \<not> truthy c)"
      by auto
  qed
  have b: "\<forall>task\<in>set others. i0 \<le> fst task \<and>
     (\<exists>t c. turn_at (post # rest) (fst task - i0) (fst (snd task)) = Some t \<and>
        get t ''counselor_content'' = Inr c \<and> \<not> truthy c)"
  proof
    fix task assume m: "task \<in> set others"
    from Cons.IH [OF pt] m have
      i: "Suc i0 \<le> fst task" and
      e: "\<exists>t c. turn_at rest (fst task - Suc i0) (fst (snd task)) = Some t \<and>
        get t ''counselor_content'' = Inr c \<and> \<not> truthy c"
      by auto
    from i have "fst task - i0 = Suc (fst task - Suc i0)" by simp
    with e i show "i0 \<le> fst task \<and>
     (\<exists>t c. turn_at (post # rest) (fst task - i0) (fst (snd task)) = Some t \<and>
        get t ''counselor_content'' = Inr c \<and> \<not> truthy c)"
      by (simp add: turn_at_Cons_Suc)
  qed
  from a b tasks show ?case by auto
qed

text \<open>
  C8. Let \<open>tasks\<close> be the tasks the stage prepares for a collection, and let any of their
  futures complete, in any order and with any outcome. Every task is for a turn without
  a counselor reply (its \<open>counselor_content\<close> is missing or falsy). After the loop the
  collection has the same posts and the same turns at the same places; a turn differs
  from the original at most in \<open>counselor_content\<close> and \<open>counselor_think\<close>; a turn that no
  completed task is for, and so every turn that carried a reply, is unchanged; and the
  other fields of every post are unchanged.
\<close>

theorem counselor_replies_frame:
  "prepare_tasks 0 posts = Inr tasks \<and> fst ` set finished \<subseteq> set tasks \<and>
   completed dumps output_file finished (posts, n, fs) = Inr (posts', n', fs')
   \<longrightarrow>
   (\<forall>task\<in>set tasks. \<exists>t c. turn_at posts (fst task) (fst (snd task)) = Some t \<and>
       get t ''counselor_content'' = Inr c \<and> \<not> truthy c) \<and>
   length posts' = length posts \<and>
   (\<forall>i j. (turn_at posts' i j = None) = (turn_at posts i j = None)) \<and>
   (\<forall>i j t t'. turn_at posts i j = Some t \<and> turn_at posts' i j = Some t' \<longrightarrow>
      (\<forall>k. k \<noteq> ''counselor_content'' \<and> k \<noteq> ''counselor_think'' \<longrightarrow> get t' k = get t k) \<and>
      ((i, j) \<notin> task_index ` fst ` set finished \<longrightarrow> t' = t) \<and>
      (\<forall>c. get t ''counselor_content'' = Inr c \<and> truthy c \<longrightarrow> t' = t)) \<and>
   (\<forall>i k. i < length posts \<and> k \<noteq> ''conversation'' \<longrightarrow>
      get (posts' ! i) k = get (posts ! i) k)"
proof
  assume a: "prepare_tasks 0 posts = Inr tasks \<and> fst ` set finished \<subseteq> set tasks \<and>
   completed dumps output_file finished (posts, n, fs) = Inr (posts', n', fs')"
  have pt: "prepare_tasks 0 posts = Inr tasks" by (rule conjunct1 [OF a])
  have sub: "fst ` set finished \<subseteq> set tasks" by (rule conjunct1 [OF conjunct2 [OF a]])
  have co: "completed dumps output_file finished (posts, n, fs) = Inr (posts', n', fs')"
    by (rule conjunct2 [OF conjunct2 [OF a]])
  have pend: "\<forall>task\<in>set tasks. \<exists>t c. turn_at posts (fst task) (fst (snd task)) = Some t \<and>
       get t ''counselor_content'' = Inr c \<and> \<not> truthy c"
    using prepare_tasks_pending [OF pt] by simp
  have fr: "only_replies_changed (task_index ` fst ` set finished) posts posts'"
    by (rule completed_only_replies_changed [OF co])
  have l: "length posts' = length posts"
    using fr by (simp add: only_replies_changed_def)
  have none: "\<forall>i j. (turn_at posts' i j = None) = (turn_at posts i j = None)"
    using fr by (simp add: only_replies_changed_def)
  have other: "\<forall>i k. i < length posts \<and> k \<noteq> ''conversation'' \<longrightarrow>
      get (posts' ! i) k = get (posts ! i) k"
    using fr by (simp add: only_replies_changed_def)
  have turns: "\<forall>i j t t'. turn_at posts i j = Some t \<and> turn_at posts' i j = Some t' \<longrightarrow>
      (\<forall>k. k \<noteq> ''counselor_content'' \<and> k \<noteq> ''counselor_think'' \<longrightarrow> get t' k = get t k) \<and>
      ((i, j) \<notin> task_index ` fst ` set finished \<longrightarrow> t' = t) \<and>
      (\<forall>c. get t ''counselor_content'' = Inr c \<and> truthy c \<longrightarrow> t' = t)"
  proof (intro allI impI conjI)
    fix i j t t' k
    assume "turn_at posts i j = Some t \<and> turn_at posts' i j = Some t'"
      and "k \<noteq> ''counselor_content'' \<and> k \<noteq> ''counselor_think''"
    with fr show "get t' k = get t k"
      unfolding only_replies_changed_def by blast
  next
    fix i j t t'
    assume "turn_at posts i j = Some t \<and> turn_at posts' i j = Some t'"
      and "(i, j) \<notin> task_index ` fst ` set finished"
    with fr show "t' = t"
      unfolding only_replies_changed_def by blast
  next
    fix i j t t' c
    assume tt: "turn_at posts i j = Some t \<and> turn_at posts' i j = Some t'"
      and c: "get t ''counselor_content'' = Inr c \<and> truthy c"
    have "(i, j) \<notin> task_index ` fst ` set finished"
    proof
      assume "(i, j) \<in> task_index ` fst ` set finished"
      then obtain task where m: "task \<in> fst ` set finished" and ti: "task_index task = (i, j)"
        by (metis (no_types) imageE)
      from m sub have "task \<in> set tasks" by blast
      with pend obtain u d where "turn_at posts (fst task) (fst (snd task)) = Some u"
        and "get u ''counselor_content'' = Inr d" and "\<not> truthy d"
        by blast
      with ti tt c show False by (simp add: task_index_def)
    qed
    with fr tt show "t' = t"
      unfolding only_replies_changed_def by blast
  qed
  from pend l none turns other show
   "(\<forall>task\<in>set tasks. \<exists>t c. turn_at posts (fst task) (fst (snd task)) = Some t \<and>
       get t ''counselor_content'' = Inr c \<and> \<not> truthy c) \<and>
   length posts' = length posts \<and>
   (\<forall>i j. (turn_at posts' i j = None) = (turn_at posts i j = None)) \<and>
   (\<forall>i j t t'. turn_at posts i j = Some t \<and> turn_at posts' i j = Some t' \<longrightarrow>
      (\<forall>k. k \<noteq> ''counselor_content'' \<and> k \<noteq> ''counselor_think'' \<longrightarrow> get t' k = get t k) \<and>
      ((i, j) \<notin> task_index ` fst ` set finished \<longrightarrow> t' = t) \<and>
      (\<forall>c. get t ''counselor_content'' = Inr c \<and> truthy c \<longrightarrow> t' = t)) \<and>
   (\<forall>i k. i < length posts \<and> k \<noteq> ''conversation'' \<longrightarrow>
      get (posts' ! i) k = get (posts ! i) k)"
    by (intro conjI)
qed

lemma example_tasks:
  "prepare_tasks 0 example_posts
     = Inr [(0, 1, JStr ''It is my work'',
             [message ''assistant'' (JStr ''Tell me more''),
              message ''user'' (JStr ''I feel anxious'')])]"
  by (simp add: example_posts_def turn_pending_def)

lemma example_completed:
  "completed (json_dumps (Some 2)) ''out.json''
     [((0, 1, JStr ''It is my work'',
        [message ''assistant'' (JStr ''Tell me more''),
         message ''user'' (JStr ''I feel anxious'')]),
       Inr (JStr ''That sounds heavy'', JStr ''reflect''))]
     (example_posts, 0, Map.empty)
   = Inr ([JObj [(''post_id'', JStr ''p1''),
            (''conversation'', JArr
               [JObj [(''round'', JInt 1), (''patient'', JStr ''I feel anxious''),
                      (''counselor_content'', JStr ''Tell me more''),
                      (''counselor_think'', JStr ''an opening'')],
                JObj [(''round'', JInt 2), (''patient'', JStr ''It is my work''),
                      (''counselor_content'', JStr ''That sounds heavy''),
                      (''counselor_think'', JStr ''reflect'')]])]], 1, Map.empty)"
  by (simp add: example_posts_def update_turn_def)

theorem counselor_replies_frame_witness:
  "turn_at [JObj [(''post_id'', JStr ''p1''),
            (''conversation'', JArr
               [JObj [(''round'', JInt 1), (''patient'', JStr ''I feel anxious''),
                      (''counselor_content'', JStr ''Tell me more''),
                      (''counselor_think'', JStr ''an opening'')],
                JObj [(''round'', JInt 2), (''patient'', JStr ''It is my work''),
                      (''counselor_content'', JStr ''That sounds heavy''),
                      (''counselor_think'', JStr ''reflect'')]])]] 0 0
     = turn_at example_posts 0 0 \<and>
   turn_at example_posts 0 0
     = Some (JObj [(''round'', JInt 1), (''patient'', JStr ''I feel anxious''),
                   (''counselor_content'', JStr ''Tell me more''),
                   (''counselor_think'', JStr ''an opening'')])"
proof -
  have t: "turn_at example_posts 0 0
     = Some (JObj [(''round'', JInt 1), (''patient'', JStr ''I feel anxious''),
                   (''counselor_content'', JStr ''Tell me more''),
                   (''counselor_think'', JStr ''an opening'')])"
    by (simp add: turn_at_def example_posts_def)
  show ?thesis
    using counselor_replies_frame
      [of example_posts
          "[(0, 1, JStr ''It is my work'',
             [message ''assistant'' (JStr ''Tell me more''),
              message ''user'' (JStr ''I feel anxious'')])]"
          "[((0, 1, JStr ''It is my work'',
              [message ''assistant'' (JStr ''Tell me more''),
               message ''user'' (JStr ''I feel anxious'')]),
             Inr (JStr ''That sounds heavy'', JStr ''reflect''))]"
          "json_dumps (Some 2)" "''out.json''" 0 Map.empty _ 1 Map.empty]
      example_tasks example_completed t
    by (simp add: turn_at_def)
qed

end
